theory Spec2Isabelle
  imports Main "HOL-Library.Word"
begin

section \<open>Go values used by llm.go\<close>

text \<open>
  A Go \<^verbatim>\<open>string\<close> is a sequence of bytes, here a \<^typ>\<open>string\<close> (a list of 8-bit
  characters); \<^verbatim>\<open>len\<close> is \<^const>\<open>length\<close>. Go's \<^verbatim>\<open>int\<close> is \<^typ>\<open>int\<close>: every index of
  this program is bounded by the length of a string, far below \<open>2^63\<close>. A run-time panic
  (index or slice bounds out of range) is the value \<open>None\<close>.
\<close>

definition byteAt :: "string \<Rightarrow> int \<Rightarrow> char option" where
  \<comment> \<open>\<^verbatim>\<open>s[i]\<close>\<close>
  "byteAt s i = (if 0 \<le> i \<and> i < int (length s) then Some (s ! nat i) else None)"

definition slice :: "string \<Rightarrow> int \<Rightarrow> int \<Rightarrow> string option" where
  \<comment> \<open>\<^verbatim>\<open>s[lo:hi]\<close>\<close>
  "slice s lo hi =
     (if 0 \<le> lo \<and> lo \<le> hi \<and> hi \<le> int (length s)
      then Some (take (nat hi - nat lo) (drop (nat lo) s)) else None)"

definition sliceFrom :: "string \<Rightarrow> int \<Rightarrow> string option" where
  \<comment> \<open>\<^verbatim>\<open>s[lo:]\<close>\<close>
  "sliceFrom s lo = slice s lo (int (length s))"

definition sliceTo :: "string \<Rightarrow> int \<Rightarrow> string option" where
  \<comment> \<open>\<^verbatim>\<open>s[:hi]\<close>\<close>
  "sliceTo s hi = slice s 0 hi"

subsection \<open>Package strings\<close>

definition HasPrefix :: "string \<Rightarrow> string \<Rightarrow> bool" where
  "HasPrefix s pre = (length pre \<le> length s \<and> take (length pre) s = pre)"

fun indexFrom :: "nat \<Rightarrow> string \<Rightarrow> string \<Rightarrow> int" where
  "indexFrom i substr [] = (if substr = [] then int i else - 1)"
| "indexFrom i substr (c # cs) =
     (if HasPrefix (c # cs) substr then int i else indexFrom (Suc i) substr cs)"

definition Index :: "string \<Rightarrow> string \<Rightarrow> int" where
  \<comment> \<open>the index of the first instance of \<open>substr\<close> in \<open>s\<close>, or \<open>-1\<close>\<close>
  "Index s substr = indexFrom 0 substr s"

text \<open>
  \<^verbatim>\<open>strings.TrimSpace\<close> removes leading, then trailing, white space as Unicode defines it.
  On the bytes of a string these are the six ASCII characters and the UTF-8 encodings of
  U+0085, U+00A0, U+1680, U+2000..U+200A, U+2028, U+2029, U+202F, U+205F and U+3000.
\<close>

definition asciiSpace :: "char \<Rightarrow> bool" where
  "asciiSpace c = (c = CHR 0x09 \<or> c = CHR 0x0A \<or> c = CHR 0x0B \<or> c = CHR 0x0C
                   \<or> c = CHR 0x0D \<or> c = CHR 0x20)"

definition space2 :: "char \<Rightarrow> char \<Rightarrow> bool" where
  "space2 a b = (a = CHR 0xC2 \<and> (b = CHR 0x85 \<or> b = CHR 0xA0))"

definition space3 :: "char \<Rightarrow> char \<Rightarrow> char \<Rightarrow> bool" where
  "space3 a b c =
     ((a = CHR 0xE1 \<and> b = CHR 0x9A \<and> c = CHR 0x80)
      \<or> (a = CHR 0xE2 \<and> b = CHR 0x80
           \<and> ((0x80 \<le> (of_char c :: nat) \<and> (of_char c :: nat) \<le> 0x8A)
                \<or> c = CHR 0xA8 \<or> c = CHR 0xA9 \<or> c = CHR 0xAF))
      \<or> (a = CHR 0xE2 \<and> b = CHR 0x81 \<and> c = CHR 0x9F)
      \<or> (a = CHR 0xE3 \<and> b = CHR 0x80 \<and> c = CHR 0x80))"

fun trimLeftSpace :: "string \<Rightarrow> string" where
  "trimLeftSpace (a # b # c # s) =
     (if asciiSpace a then trimLeftSpace (b # c # s)
      else if space2 a b then trimLeftSpace (c # s)
      else if space3 a b c then trimLeftSpace s
      else a # b # c # s)"
| "trimLeftSpace [a, b] =
     (if asciiSpace a then trimLeftSpace [b] else if space2 a b then [] else [a, b])"
| "trimLeftSpace [a] = (if asciiSpace a then [] else [a])"
| "trimLeftSpace [] = []"

fun trimRightRev :: "string \<Rightarrow> string" where
  \<comment> \<open>trailing white space, on the reversed string: \<open>a\<close> is the last byte\<close>
  "trimRightRev (a # b # c # s) =
     (if asciiSpace a then trimRightRev (b # c # s)
      else if space2 b a then trimRightRev (c # s)
      else if space3 c b a then trimRightRev s
      else a # b # c # s)"
| "trimRightRev [a, b] =
     (if asciiSpace a then trimRightRev [b] else if space2 b a then [] else [a, b])"
| "trimRightRev [a] = (if asciiSpace a then [] else [a])"
| "trimRightRev [] = []"

definition TrimSpace :: "string \<Rightarrow> string" where
  "TrimSpace s = rev (trimRightRev (rev (trimLeftSpace s)))"

text \<open>
  \<^verbatim>\<open>strings.ToLower\<close> lowers an all-ASCII string byte by byte; a string with a byte of
  \<open>0x80\<close> or more is mapped rune by rune through the Unicode case tables, which are not
  part of this development: that path is the parameter \<open>mapLower\<close>.
\<close>

definition lowerASCII :: "char \<Rightarrow> char" where
  "lowerASCII c =
     (if (0x41::nat) \<le> of_char c \<and> of_char c \<le> (0x5A::nat)
      then char_of (of_char c + (0x20::nat)) else c)"

definition ToLower :: "(string \<Rightarrow> string) \<Rightarrow> string \<Rightarrow> string" where
  "ToLower mapLower s =
     (if \<forall>c \<in> set s. of_char c < (0x80::nat) then
        (if \<not> (\<exists>c \<in> set s. (0x41::nat) \<le> of_char c \<and> of_char c \<le> (0x5A::nat)) then s
         else map lowerASCII s)
      else mapLower s)"

text \<open>
  \<^verbatim>\<open>bufio.Reader.ReadString(delim)\<close> on the bytes still to come from standard input:
  the bytes up to and including the first \<open>delim\<close>, or all of them when the input ends
  first (the caller drops the error).
\<close>

fun ReadString :: "char \<Rightarrow> string \<Rightarrow> string \<times> string" where
  "ReadString delim [] = ([], [])"
| "ReadString delim (c # cs) =
     (if c = delim then ([c], cs)
      else (case ReadString delim cs of (line, rest) \<Rightarrow> (c # line, rest)))"

section \<open>Data of llm.go\<close>

record QuestionResponse =
  Question :: string
  Answer :: string

section \<open>Locating the questions object\<close>

definition questionsKey :: string where
  "questionsKey = ''{\"questions\":''"

text \<open>
  The scan of \<^verbatim>\<open>extractQuestions\<close> and \<^verbatim>\<open>extractPRDescription\<close>:
  \<^verbatim>\<open>for i := startIdx; i < len(response); i++\<close>, with \<open>endIdx\<close> the result
  (\<open>-1\<close> when the loop runs to the end of the string).
\<close>

function scanBraces :: "string \<Rightarrow> int \<Rightarrow> int \<Rightarrow> int option" where
  "scanBraces response i braceCount =
     (if i < int (length response) then
        (case byteAt response i of
           None \<Rightarrow> None
         | Some c \<Rightarrow>
             if c = CHR ''{'' then scanBraces response (i + 1) (braceCount + 1)
             else if c = CHR ''}'' then
               (if braceCount - 1 = 0 then Some i
                else scanBraces response (i + 1) (braceCount - 1))
             else scanBraces response (i + 1) braceCount)
      else Some (- 1))"
  by pat_completeness auto
termination
  by (relation "measure (\<lambda>(response, i, braceCount). nat (int (length response) - i))") auto

declare scanBraces.simps [simp del]

text \<open>
  \<^verbatim>\<open>json.Unmarshal\<close> into \<^verbatim>\<open>struct { Questions []string `json:"questions"` }\<close> is the
  parameter \<open>unmarshal\<close>: \<open>None\<close> when it returns an error, otherwise the decoded
  \<open>Questions\<close> (the nil slice is the empty list).
\<close>

type_synonym decoder = "string \<Rightarrow> string list option"

definition questionsJSON :: "string \<Rightarrow> string option option" where
  \<comment> \<open>\<^verbatim>\<open>jsonStr\<close> of \<^verbatim>\<open>extractQuestions\<close>; \<open>Some None\<close> is an early \<^verbatim>\<open>return nil, false\<close>\<close>
  "questionsJSON response =
     (let startIdx = Index response questionsKey in
      if startIdx = - 1 then Some None
      else
        case scanBraces response startIdx 0 of
          None \<Rightarrow> None
        | Some scanned \<Rightarrow>
            if scanned = - 1 then
              (case sliceFrom response startIdx of
                 None \<Rightarrow> None
               | Some rest \<Rightarrow>
                   let endIdx = Index rest ''}'' + startIdx in
                   if endIdx = - 1 then Some None
                   else map_option Some (slice response startIdx (endIdx + 1)))
            else map_option Some (slice response startIdx (scanned + 1)))"

definition extractQuestions :: "decoder \<Rightarrow> string \<Rightarrow> (QuestionResponse list \<times> bool) option" where
  "extractQuestions unmarshal response =
     (case questionsJSON response of
        None \<Rightarrow> None
      | Some None \<Rightarrow> Some ([], False)
      | Some (Some jsonStr) \<Rightarrow>
          (case unmarshal jsonStr of
             None \<Rightarrow> Some ([], False)
           | Some questions \<Rightarrow>
               if length questions = 0 then Some ([], False)
               else
                 let questions = (if length questions > 3 then take 3 questions else questions);
                     questionResponses = map (\<lambda>q. \<lparr>Question = q, Answer = ''''\<rparr>) questions
                 in Some (questionResponses, length questionResponses > 0)))"

text \<open>
  The decoder used in the closed examples below. It accepts the object the prompt asks
  the model for (one member \<open>"questions"\<close> holding an array of strings of printable ASCII
  without escapes, with JSON white space between the tokens) and returns its strings, as
  \<^verbatim>\<open>encoding/json\<close> does on these inputs; it rejects every other input, the empty one
  among them. The theorems that speak of \<open>unmarshal\<close> hold for every decoder.
\<close>

definition jsonSpace :: "char \<Rightarrow> bool" where
  "jsonSpace c = (c = CHR 0x20 \<or> c = CHR 0x09 \<or> c = CHR 0x0A \<or> c = CHR 0x0D)"

definition plainChar :: "char \<Rightarrow> bool" where
  "plainChar c = ((0x20::nat) \<le> of_char c \<and> of_char c < (0x80::nat)
                  \<and> c \<noteq> CHR 0x22 \<and> c \<noteq> CHR 0x5C)"

fun skipSpace :: "string \<Rightarrow> string" where
  "skipSpace [] = []"
| "skipSpace (c # cs) = (if jsonSpace c then skipSpace cs else c # cs)"

definition expect :: "string \<Rightarrow> string \<Rightarrow> string option" where
  "expect token s =
     (if HasPrefix (skipSpace s) token then Some (drop (length token) (skipSpace s)) else None)"

datatype dstate = ArrStart | InStr string | AfterElem | AfterComma | AfterArr | AfterObj

fun decodeElems :: "dstate \<Rightarrow> string list \<Rightarrow> string \<Rightarrow> string list option" where
  "decodeElems st qs [] = (if st = AfterObj then Some (rev qs) else None)"
| "decodeElems ArrStart qs (c # cs) =
     (if jsonSpace c then decodeElems ArrStart qs cs
      else if c = CHR 0x22 then decodeElems (InStr []) qs cs
      else if c = CHR '']'' then decodeElems AfterArr qs cs
      else None)"
| "decodeElems (InStr acc) qs (c # cs) =
     (if c = CHR 0x22 then decodeElems AfterElem (rev acc # qs) cs
      else if plainChar c then decodeElems (InStr (c # acc)) qs cs
      else None)"
| "decodeElems AfterElem qs (c # cs) =
     (if jsonSpace c then decodeElems AfterElem qs cs
      else if c = CHR '','' then decodeElems AfterComma qs cs
      else if c = CHR '']'' then decodeElems AfterArr qs cs
      else None)"
| "decodeElems AfterComma qs (c # cs) =
     (if jsonSpace c then decodeElems AfterComma qs cs
      else if c = CHR 0x22 then decodeElems (InStr []) qs cs
      else None)"
| "decodeElems AfterArr qs (c # cs) =
     (if jsonSpace c then decodeElems AfterArr qs cs
      else if c = CHR ''}'' then decodeElems AfterObj qs cs
      else None)"
| "decodeElems AfterObj qs (c # cs) =
     (if jsonSpace c then decodeElems AfterObj qs cs else None)"

definition decodeQuestions :: decoder where
  "decodeQuestions s =
     (case expect ''{'' s of
        None \<Rightarrow> None
      | Some s1 \<Rightarrow>
          (case expect ''\"questions\"'' s1 of
             None \<Rightarrow> None
           | Some s2 \<Rightarrow>
               (case expect '':'' s2 of
                  None \<Rightarrow> None
                | Some s3 \<Rightarrow>
                    (case expect ''['' s3 of
                       None \<Rightarrow> None
                     | Some s4 \<Rightarrow> decodeElems ArrStart [] s4))))"

section \<open>Asking the user\<close>

fun askUserQuestions ::
  "(string \<Rightarrow> string) \<Rightarrow> QuestionResponse list \<Rightarrow> string \<Rightarrow> QuestionResponse list \<times> string" where
  \<comment> \<open>the questions with their answers, and the standard input left unread\<close>
  "askUserQuestions mapLower [] stdin = ([], stdin)"
| "askUserQuestions mapLower (q # questions) stdin =
     (case ReadString CHR ''\<newline>'' stdin of
        (answer, rest) \<Rightarrow>
          let q' = q\<lparr>Answer := TrimSpace answer\<rparr> in
          if ToLower mapLower (Answer q') = ''skip all'' \<or> ToLower mapLower (Answer q') = ''skipall''
          then (q' # map (\<lambda>r. r\<lparr>Answer := ''''\<rparr>) questions, rest)
          else (case askUserQuestions mapLower questions rest of
                  (questions', rest') \<Rightarrow> (q' # questions', rest')))"

section \<open>Removing the questions object from a response\<close>

definition extractPRDescription :: "string \<Rightarrow> string option" where
  "extractPRDescription response =
     (if TrimSpace response = '''' \<or> HasPrefix (TrimSpace response) questionsKey then Some ''''
      else
        let startIdx = Index response questionsKey in
        if startIdx = - 1 then Some response
        else
          case scanBraces response startIdx 0 of
            None \<Rightarrow> None
          | Some endIdx \<Rightarrow>
              if endIdx = - 1 then Some response
              else
                (case sliceTo response startIdx of
                   None \<Rightarrow> None
                 | Some beforeText \<Rightarrow>
                     (case sliceFrom response (endIdx + 1) of
                        None \<Rightarrow> None
                      | Some afterText \<Rightarrow>
                          let beforeQuestions = TrimSpace beforeText;
                              afterQuestions = TrimSpace afterText
                          in
                            if beforeQuestions \<noteq> '''' \<and> afterQuestions \<noteq> ''''
                            then Some (beforeQuestions @ ''\<newline>\<newline>'' @ afterQuestions)
                            else if beforeQuestions \<noteq> '''' then Some beforeQuestions
                            else if afterQuestions \<noteq> '''' then Some afterQuestions
                            else Some '''')))"

section \<open>Requests to the chat API\<close>

record LLMConfig =
  APIKey :: string
  Model :: string
  Temperature :: "64 word"
  MaxTokens :: int
  EnableQuestions :: bool

record ChatMessage =
  Role :: string
  Content :: string

record ChatRequest =
  Model :: string
  Messages :: "ChatMessage list"
  Temperature :: "64 word"
  MaxTokens :: int

record Choice =
  Message :: ChatMessage

record ChatResponse =
  Choices :: "Choice list"
  Error :: "string option"

text \<open>
  \<open>Temperature\<close> is the bit pattern of the \<^verbatim>\<open>float64\<close>; the program only copies it.
  \<open>Error\<close> is the pointer \<^verbatim>\<open>*struct{ Message string }\<close>: \<open>None\<close> is nil.
  The older \<^verbatim>\<open>LLMConfig\<close> of the file has no field \<open>EnableQuestions\<close>; the older
  \<^verbatim>\<open>GeneratePRMessage\<close> below takes the same record and does not read that field.
\<close>

datatype error =
    MissingAPIKey
  | MarshalFailed string
  | CreateFailed string
  | SendFailed string
  | ReadFailed string
  | UnmarshalFailed string
  | APIError string
  | NoResponse

fun errorText :: "error \<Rightarrow> string" where
  "errorText MissingAPIKey = ''OpenAI API key not found. Set the OPENAI_KEY environment variable''"
| "errorText (MarshalFailed e) = ''failed to marshal request: '' @ e"
| "errorText (CreateFailed e) = ''failed to create request: '' @ e"
| "errorText (SendFailed e) = ''failed to send request: '' @ e"
| "errorText (ReadFailed e) = ''failed to read response: '' @ e"
| "errorText (UnmarshalFailed e) = ''failed to unmarshal response: '' @ e"
| "errorText (APIError m) = ''API error: '' @ m"
| "errorText NoResponse = ''no response from API''"

text \<open>
  What the libraries and the network do with one request: the first library call that
  returns an error, with the text of that error, or the \<^verbatim>\<open>ChatResponse\<close> that
  \<^verbatim>\<open>json.Unmarshal\<close> decodes from the body. A run of the program is given the exchange
  of each of its calls, in order.
\<close>

datatype exchange =
    MarshalError string
  | NewRequestError string
  | DoError string
  | ReadError string
  | UnmarshalError string
  | Decoded ChatResponse

definition makeOpenAIRequest ::
  "exchange \<Rightarrow> ChatMessage list \<Rightarrow> LLMConfig \<Rightarrow> (error + string) \<times> ChatRequest list" where
  \<comment> \<open>the result, and the requests handed to \<^verbatim>\<open>client.Do\<close>\<close>
  "makeOpenAIRequest x messages config =
     (let requestBody = \<lparr>ChatRequest.Model = LLMConfig.Model config, Messages = messages,
                          Temperature = LLMConfig.Temperature config,
                          MaxTokens = LLMConfig.MaxTokens config\<rparr>
      in case x of
           MarshalError e \<Rightarrow> (Inl (MarshalFailed e), [])
         | NewRequestError e \<Rightarrow> (Inl (CreateFailed e), [])
         | DoError e \<Rightarrow> (Inl (SendFailed e), [requestBody])
         | ReadError e \<Rightarrow> (Inl (ReadFailed e), [requestBody])
         | UnmarshalError e \<Rightarrow> (Inl (UnmarshalFailed e), [requestBody])
         | Decoded chatResponse \<Rightarrow>
             (case Error chatResponse of
                Some m \<Rightarrow> (Inl (APIError m), [requestBody])
              | None \<Rightarrow>
                  if length (Choices chatResponse) = 0 then (Inl NoResponse, [requestBody])
                  else (Inr (Content (Message (hd (Choices chatResponse)))), [requestBody])))"

subsection \<open>Prompts\<close>

text \<open>
  \<^verbatim>\<open>fmt.Sprintf\<close> on string operands. Each \<^verbatim>\<open>%s\<close> of the format takes the next
  operand; a \<^verbatim>\<open>%s\<close> with no operand left and the operands left over at the end are
  reported in the output as the library does. The formats of llm.go hold no other use of
  \<open>%\<close> (one of them, the questions prompt, holds none at all), and any other byte is
  copied. The operands are not scanned for verbs.
\<close>

definition tab :: string where
  "tab = [CHR 0x09]"

fun extraOperands :: "string list \<Rightarrow> string" where
  "extraOperands [] = []"
| "extraOperands [a] = ''string='' @ a"
| "extraOperands (a # b # bs) = ''string='' @ a @ '', '' @ extraOperands (b # bs)"

fun Sprintf :: "string \<Rightarrow> string list \<Rightarrow> string" where
  "Sprintf [] [] = []"
| "Sprintf [] (a # as) = ''%!(EXTRA '' @ extraOperands (a # as) @ '')''"
| "Sprintf (c # d # f) as =
     (if c = CHR ''%'' \<and> d = CHR ''s'' then
        (case as of [] \<Rightarrow> ''%!s(MISSING)'' @ Sprintf f [] | a # as' \<Rightarrow> a @ Sprintf f as')
      else c # Sprintf (d # f) as)"
| "Sprintf [c] as = c # Sprintf [] as"

definition commitPromptFormat :: string where
  \<comment> \<open>the raw string literal at line 94\<close>
  "commitPromptFormat =
     ''You are a professional software engineer who has just finished writing code.\<newline>'' @
     tab @ ''You've staged your changes and are now tasked with writing a commit message. You will be given a git\<newline>'' @
     tab @ ''diff and a template. Use the git diff to determine what changes have been made in this commit. This is important\<newline>'' @
     tab @ ''for you to write an accurate and thoughtful commit message. Use the template to generate a commit message. \<newline>'' @
     tab @ ''The commit message should be concise and informative. The people reveiwing your commit message are also professional software engineers, \<newline>'' @
     tab @ ''so you can use technical language and do not need to spell out abbreviations such as PR, LLM, FF, etc. \<newline>'' @
     tab @ ''The template is a markdown file, but don't include the comments in your response.\<newline>'' @
     tab @ ''The first line of the commit message should be structured as follows:\<newline>'' @
     tab @ ''<subdirectory of the repo> <common directory of the file changes>: <brief title of the changes>\<newline>'' @
     tab @ ''Example: go ingester_worker: Adds implementation for receiving LLM requests\<newline>'' @
     tab @ ''Example: client dashboard_settings: add LLM settings to UI\<newline>'' @
     tab @ ''Example: go gql_api: Defines GraphQL API for auth signin\<newline>'' @
     tab @ ''Example: database/migrations: Adds new migrations for new tables\<newline>'' @
     tab @ ''Example: client map: fixes bug with map view\<newline>'' @
     tab @ ''\<newline>'' @
     tab @ ''Do not include any markdown headers in your response.\<newline>'' @
     tab @ ''The rest of the commit message should be an informative description of the changes you made.\<newline>'' @
     tab @ ''Use the following template format for your response:\<newline>'' @
     tab @ ''%s''"

definition prPromptText :: string where
  \<comment> \<open>the raw string literal at line 178\<close>
  "prPromptText =
     ''You are a professional software engineer who has finished a feature branch and is creating a pull request. \<newline>'' @
     tab @ ''You will be given a list of commit messages from the branch and a PR template. Use the template to generate a comprehensive PR description.\<newline>'' @
     tab @ ''The PR description should clearly explain the changes, their purpose, and any important implementation details. \<newline>'' @
     tab @ ''Do not include any other texts about testing, a human who will review your PR message will fill that part out.\<newline>'' @
     tab @ ''IMPORTANT: You MUST include the ENTIRE template in your response, including ALL sections at the end.\<newline>'' @
     tab @ ''%s\<newline>'' @
     tab @ ''Use the following template format for your response:\<newline>'' @
     tab @ ''%s''"

definition questionsPrompt :: string where
  \<comment> \<open>the raw string literal at line 266\<close>
  "questionsPrompt =
     ''\<newline>'' @
     tab @ ''If you need additional information to write a more informative PR description, you can ask up to 3 questions.\<newline>'' @
     tab @ ''To ask questions, respond with a JSON object in the following format:\<newline>'' @
     tab @ ''{\"questions\": [\"question 1\", \"question 2\", \"question 3\"]}\<newline>'' @
     tab @ ''\<newline>'' @
     tab @ ''Only ask questions if you genuinely need more context to write a better PR description. Don't ask questions in most cases.\<newline>'' @
     tab @ ''''"

definition prPromptFormat_v0 :: string where
  \<comment> \<open>the raw string literal at line 666\<close>
  "prPromptFormat_v0 =
     ''You are a professional software engineer who has finished a feature branch and is creating a pull request. \<newline>'' @
     tab @ ''You will be given a list of commit messages from the branch and a PR template. Use the template to generate a comprehensive PR description.\<newline>'' @
     tab @ ''The PR description should clearly explain the changes, their purpose, and any important implementation details. \<newline>'' @
     tab @ ''Do not include any other texts about testing, a human who will review your PR message will fill that part out.\<newline>'' @
     tab @ ''Use the following template format for your response. Be sure to include the entirety of the template:\<newline>'' @
     tab @ ''%s''"

definition getQuestionsPrompt :: "bool \<Rightarrow> string" where
  "getQuestionsPrompt enableQuestions = (if enableQuestions then questionsPrompt else '''')"

section \<open>Generating messages\<close>

definition GenerateCommitMessage ::
  "exchange \<Rightarrow> string \<Rightarrow> LLMConfig \<Rightarrow> string \<Rightarrow> (error + string) \<times> ChatRequest list" where
  \<comment> \<open>the result, and the requests handed to \<^verbatim>\<open>client.Do\<close>\<close>
  "GenerateCommitMessage x diff config template =
     (if APIKey config = '''' then (Inl MissingAPIKey, [])
      else
        let systemPrompt = Sprintf commitPromptFormat [template];
            messages =
              [\<lparr>Role = ''system'', Content = systemPrompt\<rparr>,
               \<lparr>Role = ''user'',
                Content = Sprintf ''Here is the git diff:\<newline>\<newline>%s'' [diff]\<rparr>];
            requestBody = \<lparr>ChatRequest.Model = LLMConfig.Model config, Messages = messages,
                           Temperature = LLMConfig.Temperature config,
                           MaxTokens = LLMConfig.MaxTokens config\<rparr>
        in case x of
             MarshalError e \<Rightarrow> (Inl (MarshalFailed e), [])
           | NewRequestError e \<Rightarrow> (Inl (CreateFailed e), [])
           | DoError e \<Rightarrow> (Inl (SendFailed e), [requestBody])
           | ReadError e \<Rightarrow> (Inl (ReadFailed e), [requestBody])
           | UnmarshalError e \<Rightarrow> (Inl (UnmarshalFailed e), [requestBody])
           | Decoded chatResponse \<Rightarrow>
               (case Error chatResponse of
                  Some m \<Rightarrow> (Inl (APIError m), [requestBody])
                | None \<Rightarrow>
                    if length (Choices chatResponse) = 0 then (Inl NoResponse, [requestBody])
                    else (Inr (TrimSpace (Content (Message (hd (Choices chatResponse))))),
                          [requestBody])))"

text \<open>
  A run of \<^verbatim>\<open>GeneratePRMessage\<close>: what it returns (the error, or the string with a nil
  error), the requests it handed to \<^verbatim>\<open>client.Do\<close>, in order, and the standard input it
  left unread. \<open>world k\<close> is the exchange of its call number \<open>k\<close>. What the program
  prints is not modelled.
\<close>

record run =
  returned :: "error + string"
  requests :: "ChatRequest list"
  unread :: string

definition userMessage :: "string \<Rightarrow> ChatMessage" where
  \<comment> \<open>the second message of both requests\<close>
  "userMessage commits =
     \<lparr>Role = ''user'',
      Content = Sprintf ''Here are the commit messages from the branch:\<newline>\<newline>%s'' [commits]\<rparr>"

definition noticeMessage :: ChatMessage where
  "noticeMessage =
     \<lparr>Role = ''assistant'',
      Content = ''I need some additional information to write a better PR description.''\<rparr>"

definition finalMessage :: ChatMessage where
  "finalMessage =
     \<lparr>Role = ''user'',
      Content = ''Now that you have this additional information, please generate a comprehensive PR description using the template provided earlier.''\<rparr>"

definition GeneratePRMessage ::
  "decoder \<Rightarrow> (string \<Rightarrow> string) \<Rightarrow> (nat \<Rightarrow> exchange) \<Rightarrow> string
     \<Rightarrow> string \<Rightarrow> LLMConfig \<Rightarrow> string \<Rightarrow> run option" where
  "GeneratePRMessage unmarshal mapLower world stdin commits config template =
     (if APIKey config = ''''
      then Some \<lparr>returned = Inl MissingAPIKey, requests = [], unread = stdin\<rparr>
      else
        let systemPrompt =
              Sprintf (getQuestionsPrompt (EnableQuestions config)) [prPromptText, template];
            messages = [\<lparr>Role = ''system'', Content = systemPrompt\<rparr>, userMessage commits]
        in
          case makeOpenAIRequest (world 0) messages config of
            (Inl err, sent) \<Rightarrow> Some \<lparr>returned = Inl err, requests = sent, unread = stdin\<rparr>
          | (Inr response, sent) \<Rightarrow>
              (case extractQuestions unmarshal response of
                 None \<Rightarrow> None
               | Some (questionResponses, hasQuestions) \<Rightarrow>
                   if hasQuestions \<and> EnableQuestions config then
                     (case askUserQuestions mapLower questionResponses stdin of
                        (questionResponses, stdin') \<Rightarrow>
                          let anyAnswered = list_ex (\<lambda>q. Answer q \<noteq> '''') questionResponses in
                          if anyAnswered then
                            let newMessages =
                                  foldl (\<lambda>ms qa.
                                           if Answer qa \<noteq> ''''
                                           then ms @ [\<lparr>Role = ''assistant'', Content = Question qa\<rparr>,
                                                      \<lparr>Role = ''user'', Content = Answer qa\<rparr>]
                                           else ms)
                                    [\<lparr>Role = ''system'', Content = systemPrompt\<rparr>,
                                     userMessage commits, noticeMessage]
                                    questionResponses
                                  @ [finalMessage]
                            in
                              (case makeOpenAIRequest (world 1) newMessages config of
                                 (Inl err, sent') \<Rightarrow>
                                   Some \<lparr>returned = Inl err, requests = sent @ sent',
                                         unread = stdin'\<rparr>
                               | (Inr response', sent') \<Rightarrow>
                                   Some \<lparr>returned = Inr (TrimSpace response'),
                                         requests = sent @ sent', unread = stdin'\<rparr>)
                          else
                            (case extractPRDescription response of
                               None \<Rightarrow> None
                             | Some response' \<Rightarrow>
                                 Some \<lparr>returned = Inr (TrimSpace response'), requests = sent,
                                       unread = stdin'\<rparr>))
                   else Some \<lparr>returned = Inr (TrimSpace response), requests = sent,
                              unread = stdin\<rparr>))"

subsection \<open>The older variant of GeneratePRMessage in the file\<close>

definition GeneratePRMessage_v0 ::
  "exchange \<Rightarrow> string \<Rightarrow> LLMConfig \<Rightarrow> string \<Rightarrow> (error + string) \<times> ChatRequest list" where
  "GeneratePRMessage_v0 x commits config template =
     (if APIKey config = '''' then (Inl MissingAPIKey, [])
      else
        let systemPrompt = Sprintf prPromptFormat_v0 [template];
            messages =
              [\<lparr>Role = ''system'', Content = systemPrompt\<rparr>,
               \<lparr>Role = ''user'',
                Content = Sprintf ''Here are the commit messages from the branch:\<newline>\<newline>%s''
                            [commits]\<rparr>];
            requestBody = \<lparr>ChatRequest.Model = LLMConfig.Model config, Messages = messages,
                           Temperature = LLMConfig.Temperature config,
                           MaxTokens = LLMConfig.MaxTokens config\<rparr>
        in case x of
             MarshalError e \<Rightarrow> (Inl (MarshalFailed e), [])
           | NewRequestError e \<Rightarrow> (Inl (CreateFailed e), [])
           | DoError e \<Rightarrow> (Inl (SendFailed e), [requestBody])
           | ReadError e \<Rightarrow> (Inl (ReadFailed e), [requestBody])
           | UnmarshalError e \<Rightarrow> (Inl (UnmarshalFailed e), [requestBody])
           | Decoded chatResponse \<Rightarrow>
               (case Error chatResponse of
                  Some m \<Rightarrow> (Inl (APIError m), [requestBody])
                | None \<Rightarrow>
                    if length (Choices chatResponse) = 0 then (Inl NoResponse, [requestBody])
                    else (Inr (TrimSpace (Content (Message (hd (Choices chatResponse))))),
                          [requestBody])))"

section \<open>Notions used to state the properties\<close>

subsection \<open>Occurrences and brace counting\<close>

text \<open>
  \<open>occursAt s substr k\<close>: the bytes of \<open>substr\<close> stand in \<open>s\<close> from index \<open>k\<close> on.
  \<open>firstAt r s\<close>: the first occurrence of \<open>{"questions":\<close> in \<open>r\<close> is at index \<open>s\<close>.
\<close>

definition occursAt :: "string \<Rightarrow> string \<Rightarrow> nat \<Rightarrow> bool" where
  "occursAt s substr k = (k + length substr \<le> length s \<and> take (length substr) (drop k s) = substr)"

definition firstAt :: "string \<Rightarrow> nat \<Rightarrow> bool" where
  "firstAt r s = (occursAt r questionsKey s \<and> (\<forall>j \<in> {0..<s}. \<not> occursAt r questionsKey j))"

text \<open>
  The brace counter in the words of the specification: \<open>depth\<close> adds one for each
  \<open>{\<close> and subtracts one for each \<open>}\<close>; \<open>counter r s e\<close> is its value after the bytes
  \<open>s\<close> to \<open>e\<close> of \<open>r\<close>. \<open>returnsToZero r s e\<close>: \<open>e\<close> is the first position from
  \<open>s\<close> on where the counter is zero. \<open>firstClose r s e\<close>: \<open>e\<close> is the first position
  from \<open>s\<close> on that holds a \<open>}\<close>. \<open>endsAt r s e\<close>: the end the code finds for the
  object that starts at \<open>s\<close>, the former when there is one and the latter otherwise.
\<close>

fun depth :: "string \<Rightarrow> int" where
  "depth [] = 0"
| "depth (c # cs) = (if c = CHR ''{'' then 1 else if c = CHR ''}'' then - 1 else 0) + depth cs"

definition counter :: "string \<Rightarrow> nat \<Rightarrow> nat \<Rightarrow> int" where
  "counter r s e = depth (take (Suc e - s) (drop s r))"

definition returnsToZero :: "string \<Rightarrow> nat \<Rightarrow> nat \<Rightarrow> bool" where
  "returnsToZero r s e =
     (s \<le> e \<and> e < length r \<and> counter r s e = 0 \<and> (\<forall>k \<in> {s..<e}. counter r s k \<noteq> 0))"

definition firstClose :: "string \<Rightarrow> nat \<Rightarrow> nat \<Rightarrow> bool" where
  "firstClose r s e =
     (s \<le> e \<and> e < length r \<and> r ! e = CHR ''}'' \<and> (\<forall>k \<in> {s..<e}. r ! k \<noteq> CHR ''}''))"

definition endsAt :: "string \<Rightarrow> nat \<Rightarrow> nat \<Rightarrow> bool" where
  "endsAt r s e =
     (returnsToZero r s e
      \<or> ((\<forall>e' \<in> {s..<length r}. \<not> returnsToZero r s e') \<and> firstClose r s e))"

text \<open>The scan of \<open>scanBraces\<close> on the bytes still to come, used in the proofs.\<close>

fun scanFrom :: "string \<Rightarrow> int \<Rightarrow> int \<Rightarrow> int" where
  "scanFrom [] i n = - 1"
| "scanFrom (c # cs) i n =
     (if c = CHR ''{'' then scanFrom cs (i + 1) (n + 1)
      else if c = CHR ''}'' then (if n - 1 = 0 then i else scanFrom cs (i + 1) (n - 1))
      else scanFrom cs (i + 1) n)"

text \<open>Two texts joined by a blank line when neither is empty.\<close>

definition joined :: "string \<Rightarrow> string \<Rightarrow> string" where
  "joined b a = (if b \<noteq> [] \<and> a \<noteq> [] then b @ ''\<newline>\<newline>'' @ a else b @ a)"

subsection \<open>Standard input\<close>

text \<open>
  \<open>readLines n stdin\<close>: the results of \<open>n\<close> successive calls of
  \<^verbatim>\<open>ReadString\<close> up to a newline, and the input left. \<open>isSkipAll\<close>: the test of
  \<^verbatim>\<open>askUserQuestions\<close> on a trimmed answer.
\<close>

fun readLines :: "nat \<Rightarrow> string \<Rightarrow> string list \<times> string" where
  "readLines 0 stdin = ([], stdin)"
| "readLines (Suc n) stdin =
     (case ReadString CHR ''\<newline>'' stdin of
        (line, rest) \<Rightarrow> (case readLines n rest of (lines, rest') \<Rightarrow> (line # lines, rest')))"

definition isSkipAll :: "(string \<Rightarrow> string) \<Rightarrow> string \<Rightarrow> bool" where
  "isSkipAll mapLower a = (ToLower mapLower a = ''skip all'' \<or> ToLower mapLower a = ''skipall'')"

subsection \<open>Exchanges and requests\<close>

text \<open>
  \<open>requestOf\<close>: the body of the request for a list of messages. \<open>built x\<close>: the
  exchange gets as far as \<^verbatim>\<open>client.Do\<close>, so a request is issued. \<open>contentOf x\<close>:
  the content of the first choice, when the exchange decodes a response with no error and
  a choice; \<open>failureOf x\<close>: the error returned otherwise; \<open>outcomeOf x\<close>: the one or
  the other.
\<close>

definition requestOf :: "LLMConfig \<Rightarrow> ChatMessage list \<Rightarrow> ChatRequest" where
  "requestOf config messages =
     \<lparr>ChatRequest.Model = LLMConfig.Model config, Messages = messages,
      Temperature = LLMConfig.Temperature config, MaxTokens = LLMConfig.MaxTokens config\<rparr>"

definition built :: "exchange \<Rightarrow> bool" where
  "built x = (case x of MarshalError e \<Rightarrow> False | NewRequestError e \<Rightarrow> False | _ \<Rightarrow> True)"

definition contentOf :: "exchange \<Rightarrow> string option" where
  "contentOf x =
     (case x of
        Decoded chatResponse \<Rightarrow>
          (case Error chatResponse of
             Some m \<Rightarrow> None
           | None \<Rightarrow>
               if Choices chatResponse = [] then None
               else Some (Content (Message (hd (Choices chatResponse)))))
      | _ \<Rightarrow> None)"

fun failureOf :: "exchange \<Rightarrow> error" where
  "failureOf (MarshalError e) = MarshalFailed e"
| "failureOf (NewRequestError e) = CreateFailed e"
| "failureOf (DoError e) = SendFailed e"
| "failureOf (ReadError e) = ReadFailed e"
| "failureOf (UnmarshalError e) = UnmarshalFailed e"
| "failureOf (Decoded chatResponse) =
     (case Error chatResponse of Some m \<Rightarrow> APIError m | None \<Rightarrow> NoResponse)"

definition outcomeOf :: "exchange \<Rightarrow> error + string" where
  "outcomeOf x = (case contentOf x of Some c \<Rightarrow> Inr c | None \<Rightarrow> Inl (failureOf x))"

text \<open>
  The messages of the first request, the question and answer pairs that the second
  request carries, and the messages of the second request.
\<close>

definition firstMessages :: "LLMConfig \<Rightarrow> string \<Rightarrow> string \<Rightarrow> ChatMessage list" where
  "firstMessages config commits template =
     [\<lparr>Role = ''system'',
       Content = Sprintf (getQuestionsPrompt (EnableQuestions config)) [prPromptText, template]\<rparr>,
      userMessage commits]"

definition qaMessages :: "QuestionResponse list \<Rightarrow> ChatMessage list" where
  "qaMessages qs =
     concat (map (\<lambda>qa. [\<lparr>Role = ''assistant'', Content = Question qa\<rparr>,
                         \<lparr>Role = ''user'', Content = Answer qa\<rparr>])
                 (filter (\<lambda>qa. Answer qa \<noteq> '''') qs))"

definition followUpMessages ::
  "LLMConfig \<Rightarrow> string \<Rightarrow> string \<Rightarrow> QuestionResponse list \<Rightarrow> ChatMessage list" where
  "followUpMessages config commits template qs =
     firstMessages config commits template @ [noticeMessage] @ qaMessages qs @ [finalMessage]"

text \<open>
  \<open>wantsFollowUp\<close>: the API key is not empty, \<open>EnableQuestions\<close> is true, the first
  exchange yields content from which \<^verbatim>\<open>extractQuestions\<close> reports questions, and the
  user gives at least one non-empty answer.
\<close>

definition wantsFollowUp ::
  "decoder \<Rightarrow> (string \<Rightarrow> string) \<Rightarrow> (nat \<Rightarrow> exchange) \<Rightarrow> string \<Rightarrow> LLMConfig \<Rightarrow> bool" where
  "wantsFollowUp unmarshal mapLower world stdin config =
     (APIKey config \<noteq> '''' \<and> EnableQuestions config
      \<and> (case contentOf (world 0) of
            None \<Rightarrow> False
          | Some response \<Rightarrow>
              (case extractQuestions unmarshal response of
                 None \<Rightarrow> False
               | Some (qs, ok) \<Rightarrow>
                   ok \<and> list_ex (\<lambda>q. Answer q \<noteq> '''') (fst (askUserQuestions mapLower qs stdin)))))"

subsection \<open>Inputs of the examples\<close>

text \<open>
  A configuration with the defaults of \<^verbatim>\<open>NewLLMConfig\<close> (\<open>0.7\<close> is the bit pattern
  \<open>0x3FE6666666666666\<close>), an exchange that decodes a response with one choice, and the
  world that gives every call the same exchange.
\<close>

definition exampleConfig :: "string \<Rightarrow> bool \<Rightarrow> LLMConfig" where
  "exampleConfig key questions =
     \<lparr>APIKey = key, Model = ''gpt-4'', Temperature = 0x3FE6666666666666, MaxTokens = 1000,
      EnableQuestions = questions\<rparr>"

definition reply :: "string \<Rightarrow> exchange" where
  "reply s = Decoded \<lparr>Choices = [\<lparr>Message = \<lparr>Role = ''assistant'', Content = s\<rparr>\<rparr>], Error = None\<rparr>"

definition always :: "exchange \<Rightarrow> nat \<Rightarrow> exchange" where
  "always x k = x"

section \<open>Properties of the library functions\<close>

subsection \<open>Index finds the first occurrence\<close>

lemma HasPrefix_occursAt: "HasPrefix s substr = occursAt s substr 0"
  by (simp add: HasPrefix_def occursAt_def)

lemma occursAt_Cons_Suc: "occursAt (c # cs) substr (Suc k) = occursAt cs substr k"
  by (simp add: occursAt_def)

lemma indexFrom_none:
  "indexFrom i substr s = - 1 \<Longrightarrow> \<not> occursAt s substr k"
proof (induction s arbitrary: i k)
  case Nil
  then show ?case by (auto simp: occursAt_def split: if_splits)
next
  case (Cons c cs)
  show ?case
  proof (cases k)
    case 0
    with Cons.prems show ?thesis
      by (auto simp: HasPrefix_occursAt split: if_splits)
  next
    case (Suc j)
    from Cons.prems have "indexFrom (Suc i) substr cs = - 1"
      by (auto split: if_splits)
    then have "\<not> occursAt cs substr j" by (rule Cons.IH)
    with Suc show ?thesis by (simp add: occursAt_Cons_Suc)
  qed
qed

lemma indexFrom_some:
  "indexFrom i substr s \<noteq> - 1 \<Longrightarrow>
   \<exists>k. indexFrom i substr s = int i + int k \<and> occursAt s substr k \<and> (\<forall>j<k. \<not> occursAt s substr j)"
proof (induction s arbitrary: i)
  case Nil
  then show ?case by (auto simp: occursAt_def split: if_splits)
next
  case (Cons c cs)
  show ?case
  proof (cases "HasPrefix (c # cs) substr")
    case True
    then have "indexFrom i substr (c # cs) = int i + int 0 \<and> occursAt (c # cs) substr 0"
      by (simp add: HasPrefix_occursAt)
    then show ?thesis by blast
  next
    case False
    with Cons.prems have ne: "indexFrom (Suc i) substr cs \<noteq> - 1" by simp
    from Cons.IH [OF ne] obtain k where
      k: "indexFrom (Suc i) substr cs = int (Suc i) + int k" "occursAt cs substr k"
         "\<forall>j<k. \<not> occursAt cs substr j" by blast
    have "\<forall>j<Suc k. \<not> occursAt (c # cs) substr j"
    proof (intro allI impI)
      fix j assume "j < Suc k"
      then show "\<not> occursAt (c # cs) substr j"
        using False k(3) by (cases j) (auto simp: HasPrefix_occursAt occursAt_Cons_Suc)
    qed
    moreover have "indexFrom i substr (c # cs) = int i + int (Suc k)"
      using False k(1) by simp
    moreover have "occursAt (c # cs) substr (Suc k)"
      using k(2) by (simp add: occursAt_Cons_Suc)
    ultimately show ?thesis by blast
  qed
qed

lemma Index_none: "Index s substr = - 1 \<Longrightarrow> \<not> occursAt s substr k"
  unfolding Index_def by (rule indexFrom_none)

lemma Index_some:
  "Index s substr \<noteq> - 1 \<Longrightarrow>
   \<exists>k. Index s substr = int k \<and> occursAt s substr k \<and> (\<forall>j<k. \<not> occursAt s substr j)"
  unfolding Index_def using indexFrom_some [of 0 substr s] by simp

lemma Index_first:
  assumes "occursAt s substr k" "\<forall>j<k. \<not> occursAt s substr j"
  shows "Index s substr = int k"
proof -
  have ne: "Index s substr \<noteq> - 1" using assms(1) Index_none by blast
  from Index_some [OF ne] obtain k' where
    k': "Index s substr = int k'" "occursAt s substr k'" "\<forall>j<k'. \<not> occursAt s substr j" by blast
  have "k' = k"
    using assms k'(2,3) by (meson linorder_neqE_nat)
  with k'(1) show ?thesis by simp
qed

section \<open>The brace scan\<close>

text \<open>
  The scan never reads outside the string, and started behind an opening brace with the
  counter at one it returns the first position where the counter is back at zero.
\<close>

lemma scanBraces_scanFrom:
  "0 \<le> i \<Longrightarrow> scanBraces r i n = Some (scanFrom (drop (nat i) r) i n)"
proof (induction r i n rule: scanBraces.induct)
  case (1 response i braceCount)
  show ?case
  proof (cases "i < int (length response)")
    case False
    then show ?thesis by (simp add: scanBraces.simps)
  next
    case True
    with "1.prems" have lt: "nat i < length response" by linarith
    have at: "byteAt response i = Some (response ! nat i)"
      using True "1.prems" by (simp add: byteAt_def)
    have dr: "drop (nat i) response = response ! nat i # drop (nat (i + 1)) response"
      using lt "1.prems" by (simp add: Cons_nth_drop_Suc nat_add_distrib)
    have nn: "0 \<le> i + 1" using "1.prems" by simp
    show ?thesis
      using True at "1.IH"(1) [OF True at _ nn] "1.IH"(2) [OF True at _ _ _ nn]
            "1.IH"(3) [OF True at _ _ nn]
      by (subst scanBraces.simps) (simp add: dr)
  qed
qed

lemma scanFrom_none:
  "1 \<le> n \<Longrightarrow> 0 \<le> i \<Longrightarrow> scanFrom cs i n = - 1 \<Longrightarrow> k < length cs \<Longrightarrow> n + depth (take (Suc k) cs) \<noteq> 0"
proof (induction cs arbitrary: i n k)
  case Nil
  then show ?case by simp
next
  case (Cons c cs)
  have nn: "0 \<le> i + 1" using Cons.prems by simp
  show ?case
  proof (cases k)
    case 0
    with Cons.prems show ?thesis by (auto split: if_splits)
  next
    case (Suc j)
    with Cons.prems have j: "j < length cs" by simp
    show ?thesis
    proof (cases "c = CHR ''{''")
      case True
      with Cons.prems have "scanFrom cs (i + 1) (n + 1) = - 1" "1 \<le> n + 1" by auto
      from Cons.IH [OF this(2) nn this(1) j] show ?thesis using True Suc by simp
    next
      case nb: False
      show ?thesis
      proof (cases "c = CHR ''}''")
        case True
        with Cons.prems nb have "scanFrom cs (i + 1) (n - 1) = - 1" "1 \<le> n - 1"
          by (auto split: if_splits)
        from Cons.IH [OF this(2) nn this(1) j] show ?thesis using True Suc by simp
      next
        case False
        with Cons.prems nb have "scanFrom cs (i + 1) n = - 1" by auto
        from Cons.IH [OF Cons.prems(1) nn this j] show ?thesis using False nb Suc by simp
      qed
    qed
  qed
qed

lemma scanFrom_some:
  "1 \<le> n \<Longrightarrow> 0 \<le> i \<Longrightarrow> scanFrom cs i n \<noteq> - 1 \<Longrightarrow>
   \<exists>k<length cs. scanFrom cs i n = i + int k \<and> cs ! k = CHR ''}''
      \<and> n + depth (take (Suc k) cs) = 0 \<and> (\<forall>j<k. n + depth (take (Suc j) cs) \<noteq> 0)"
proof (induction cs arbitrary: i n)
  case Nil
  then show ?case by simp
next
  case (Cons c cs)
  have nn: "0 \<le> i + 1" using Cons.prems by simp
  have step: "\<exists>k<length (c # cs). scanFrom (c # cs) i n = i + int k \<and> (c # cs) ! k = CHR ''}''
      \<and> n + depth (take (Suc k) (c # cs)) = 0 \<and> (\<forall>j<k. n + depth (take (Suc j) (c # cs)) \<noteq> 0)"
    if eq: "scanFrom (c # cs) i n = scanFrom cs (i + 1) m" and m: "1 \<le> m"
       and d: "m = n + depth [c]" for m
  proof -
    from Cons.prems(3) eq have "scanFrom cs (i + 1) m \<noteq> - 1" by simp
    from Cons.IH [OF m nn this] obtain k where
      k: "k < length cs" "scanFrom cs (i + 1) m = i + 1 + int k" "cs ! k = CHR ''}''"
         "m + depth (take (Suc k) cs) = 0" "\<forall>j<k. m + depth (take (Suc j) cs) \<noteq> 0" by blast
    have "\<forall>j<Suc k. n + depth (take (Suc j) (c # cs)) \<noteq> 0"
    proof (intro allI impI)
      fix j assume "j < Suc k"
      then show "n + depth (take (Suc j) (c # cs)) \<noteq> 0"
        using k(5) m d by (cases j) (auto split: if_splits)
    qed
    moreover have "n + depth (take (Suc (Suc k)) (c # cs)) = 0"
      using k(4) d by (auto split: if_splits)
    ultimately show ?thesis
      using k(1,2,3) eq by (intro exI [of _ "Suc k"]) simp
  qed
  show ?case
  proof (cases "c = CHR ''{''")
    case True
    show ?thesis by (rule step [of "n + 1"]) (use True Cons.prems in auto)
  next
    case nb: False
    show ?thesis
    proof (cases "c = CHR ''}''")
      case cb: True
      show ?thesis
      proof (cases "n - 1 = 0")
        case True
        with cb nb show ?thesis by (intro exI [of _ 0]) simp
      next
        case False
        show ?thesis by (rule step [of "n - 1"]) (use False cb nb Cons.prems in auto)
      qed
    next
      case False
      show ?thesis by (rule step [of n]) (use False nb Cons.prems in auto)
    qed
  qed
qed

subsection \<open>Slices within bounds\<close>

lemma sliceFrom_drop: "s \<le> length r \<Longrightarrow> sliceFrom r (int s) = Some (drop s r)"
  by (simp add: sliceFrom_def slice_def)

lemma slice_take_drop:
  "s \<le> Suc e \<Longrightarrow> e < length r \<Longrightarrow> slice r (int s) (int e + 1) = Some (take (Suc e - s) (drop s r))"
  by (simp add: slice_def nat_add_distrib)

subsection \<open>The scan from the first occurrence of the key\<close>

lemma firstAt_Index: "firstAt r s \<Longrightarrow> Index r questionsKey = int s"
  unfolding firstAt_def by (simp add: Index_first)

lemma occursAt_key_brace:
  assumes "occursAt r questionsKey s"
  shows "s < length r \<and> r ! s = CHR ''{''"
proof -
  have kl: "0 < length questionsKey" "questionsKey ! 0 = CHR ''{''"
    by (simp_all add: questionsKey_def)
  from assms have len: "s + length questionsKey \<le> length r"
    and tk: "take (length questionsKey) (drop s r) = questionsKey"
    by (simp_all add: occursAt_def)
  from len kl(1) have lt: "s < length r" by linarith
  have "take (length questionsKey) (drop s r) ! 0 = r ! s" using len kl(1) by simp
  with tk kl(2) have "r ! s = CHR ''{''" by simp
  with lt show ?thesis by simp
qed

lemma no_key_or_firstAt: "(\<forall>k. \<not> occursAt r questionsKey k) \<or> (\<exists>s. firstAt r s)"
proof (cases "Index r questionsKey = - 1")
  case True
  then have "\<forall>k. \<not> occursAt r questionsKey k" by (simp add: Index_none)
  then show ?thesis by (rule disjI1)
next
  case False
  from Index_some [OF False] obtain k where
    "occursAt r questionsKey k" "\<forall>j<k. \<not> occursAt r questionsKey j" by blast
  then have "firstAt r k" by (simp add: firstAt_def)
  then show ?thesis by blast
qed

lemma counter_start: "s < length r \<Longrightarrow> r ! s = CHR ''{'' \<Longrightarrow> counter r s s = 1"
  by (simp add: counter_def Cons_nth_drop_Suc [symmetric])

lemma counter_later:
  assumes "s < length r" "r ! s = CHR ''{''"
  shows "counter r s (Suc s + k) = 1 + depth (take (Suc k) (drop (Suc s) r))"
proof -
  have "drop s r = CHR ''{'' # drop (Suc s) r"
    using assms by (simp add: Cons_nth_drop_Suc [symmetric])
  then show ?thesis by (simp add: counter_def)
qed

lemma scan_at_brace:
  assumes s: "s < length r" and b: "r ! s = CHR ''{''"
  shows "(scanBraces r (int s) 0 = Some (- 1) \<and> (\<forall>e. \<not> returnsToZero r s e))
       \<or> (\<exists>e. scanBraces r (int s) 0 = Some (int e) \<and> returnsToZero r s e)"
proof -
  let ?rest = "drop (Suc s) r"
  have dr: "drop s r = CHR ''{'' # ?rest"
    using s b by (simp add: Cons_nth_drop_Suc [symmetric])
  have sc: "scanBraces r (int s) 0 = Some (scanFrom ?rest (int s + 1) 1)"
    using scanBraces_scanFrom [of "int s" r 0] by (simp add: dr)
  show ?thesis
  proof (cases "scanFrom ?rest (int s + 1) 1 = - 1")
    case True
    have "\<not> returnsToZero r s e" for e
    proof
      assume rz: "returnsToZero r s e"
      then have se: "s \<le> e" "e < length r" "counter r s e = 0" by (simp_all add: returnsToZero_def)
      show False
      proof (cases "e = s")
        case True
        with se(3) counter_start [OF s b] show False by simp
      next
        case False
        with se(1) obtain k where k: "e = Suc s + k" by (metis Suc_leI le_neq_implies_less nat_le_iff_add)
        with se(2) have kl: "k < length ?rest" by simp
        from scanFrom_none [OF _ _ True kl] have "1 + depth (take (Suc k) ?rest) \<noteq> 0" by simp
        with se(3) counter_later [OF s b, of k] k show False by simp
      qed
    qed
    with sc True show ?thesis by simp
  next
    case False
    from scanFrom_some [OF _ _ False] obtain k where
      k: "k < length ?rest" "scanFrom ?rest (int s + 1) 1 = int s + 1 + int k"
         "1 + depth (take (Suc k) ?rest) = 0" "\<forall>j<k. 1 + depth (take (Suc j) ?rest) \<noteq> 0"
      by auto
    let ?e = "Suc s + k"
    have e1: "scanBraces r (int s) 0 = Some (int ?e)" using sc k(2) by simp
    have e2: "?e < length r" using k(1) by simp
    have e3: "counter r s ?e = 0" using counter_later [OF s b, of k] k(3) by simp
    have e4: "counter r s j \<noteq> 0" if "s \<le> j" "j < ?e" for j
    proof (cases "j = s")
      case True
      then show ?thesis using counter_start [OF s b] by simp
    next
      case False
      with that(1) obtain i where i: "j = Suc s + i" by (metis Suc_leI le_neq_implies_less nat_le_iff_add)
      with that(2) have "i < k" by simp
      with k(4) have "1 + depth (take (Suc i) ?rest) \<noteq> 0" by blast
      then show ?thesis using counter_later [OF s b, of i] i by simp
    qed
    have "returnsToZero r s ?e"
      unfolding returnsToZero_def using e2 e3 e4 by auto
    with e1 show ?thesis by blast
  qed
qed

lemma returnsToZero_unique:
  assumes "returnsToZero r s e" "returnsToZero r s e'"
  shows "e = e'"
proof (rule ccontr)
  assume ne: "e \<noteq> e'"
  from assms have a: "s \<le> e" "counter r s e = 0" "\<forall>k \<in> {s..<e}. counter r s k \<noteq> 0"
    and b: "s \<le> e'" "counter r s e' = 0" "\<forall>k \<in> {s..<e'}. counter r s k \<noteq> 0"
    by (simp_all add: returnsToZero_def)
  from ne consider "e < e'" | "e' < e" by linarith
  then show False
  proof cases
    case 1
    with a(1) have "e \<in> {s..<e'}" by simp
    with b(3) a(2) show False by blast
  next
    case 2
    with b(1) have "e' \<in> {s..<e}" by simp
    with a(3) b(2) show False by blast
  qed
qed

lemma never_returns_iff:
  "(\<forall>e \<in> {s..<length r}. \<not> returnsToZero r s e) = (\<forall>e. \<not> returnsToZero r s e)"
proof
  assume a: "\<forall>e \<in> {s..<length r}. \<not> returnsToZero r s e"
  show "\<forall>e. \<not> returnsToZero r s e"
  proof
    fix e
    show "\<not> returnsToZero r s e"
    proof
      assume z: "returnsToZero r s e"
      then have "e \<in> {s..<length r}" by (simp add: returnsToZero_def)
      with a z show False by blast
    qed
  qed
next
  assume "\<forall>e. \<not> returnsToZero r s e"
  then show "\<forall>e \<in> {s..<length r}. \<not> returnsToZero r s e" by blast
qed

lemma scan_returns:
  assumes "s < length r" "r ! s = CHR ''{''" "returnsToZero r s e"
  shows "scanBraces r (int s) 0 = Some (int e)"
  using scan_at_brace [OF assms(1,2)] assms(3) returnsToZero_unique by blast

lemma scan_never:
  assumes "s < length r" "r ! s = CHR ''{''" "\<forall>e. \<not> returnsToZero r s e"
  shows "scanBraces r (int s) 0 = Some (- 1)"
  using scan_at_brace [OF assms(1,2)] assms(3) by blast

lemma never_returns_of_scan:
  assumes "s < length r" "r ! s = CHR ''{''" "scanBraces r (int s) 0 = Some (- 1)"
  shows "\<forall>e. \<not> returnsToZero r s e"
proof (intro allI notI)
  fix e
  assume "returnsToZero r s e"
  from scan_returns [OF assms(1,2) this] assms(3) show False by simp
qed

subsection \<open>The fallback to the first closing brace\<close>

lemma occursAt_close: "occursAt t ''}'' k = (k < length t \<and> t ! k = CHR ''}'')"
proof -
  have "take (Suc 0) (drop k t) = [t ! k]" if "k < length t"
    using that by (simp add: take_Suc_conv_app_nth)
  then show ?thesis by (auto simp: occursAt_def)
qed

lemma Index_close_found:
  assumes "firstClose r s e"
  shows "Index (drop s r) ''}'' = int (e - s)"
proof (rule Index_first)
  from assms have se: "s \<le> e" "e < length r" "r ! e = CHR ''}''"
    and fst: "\<And>k. s \<le> k \<Longrightarrow> k < e \<Longrightarrow> r ! k \<noteq> CHR ''}''"
    by (simp_all add: firstClose_def)
  from se(1,2) have "e - s < length r - s" by linarith
  with se show "occursAt (drop s r) ''}'' (e - s)"
    by (simp add: occursAt_close)
  show "\<forall>j<e - s. \<not> occursAt (drop s r) ''}'' j"
  proof (intro allI impI)
    fix j assume j: "j < e - s"
    then have "s \<le> s + j" "s + j < e" by linarith+
    from fst [OF this] have "r ! (s + j) \<noteq> CHR ''}''" .
    moreover have "s + j \<le> length r" using j se(2) by linarith
    ultimately show "\<not> occursAt (drop s r) ''}'' j" by (simp add: occursAt_close)
  qed
qed

lemma Index_close_none:
  assumes "\<forall>e. \<not> firstClose r s e"
  shows "Index (drop s r) ''}'' = - 1"
proof (rule ccontr)
  assume "Index (drop s r) ''}'' \<noteq> - 1"
  from Index_some [OF this] obtain k where
    k: "occursAt (drop s r) ''}'' k" "\<forall>j<k. \<not> occursAt (drop s r) ''}'' j" by blast
  from k(1) have kl: "k < length r - s" and kc: "drop s r ! k = CHR ''}''"
    by (simp_all add: occursAt_close)
  from kl have sk: "s + k < length r" by linarith
  then have kc': "r ! (s + k) = CHR ''}''" using kc by simp
  have "firstClose r s (s + k)"
    unfolding firstClose_def
  proof (intro conjI ballI)
    show "s \<le> s + k" by simp
    show "s + k < length r" by (rule sk)
    show "r ! (s + k) = CHR ''}''" by (rule kc')
    fix j assume "j \<in> {s..<s + k}"
    then have j: "s \<le> j \<and> j < s + k" by simp
    then have jk: "j - s < k" by linarith
    with k(2) have no: "\<not> occursAt (drop s r) ''}'' (j - s)" by blast
    have jl: "j - s < length r - s" using jk kl by linarith
    have "drop s r ! (j - s) = r ! j" using j sk by simp
    with no jl show "r ! j \<noteq> CHR ''}''" by (simp add: occursAt_close)
  qed
  with assms show False by blast
qed

section \<open>What extractQuestions decodes\<close>

lemma questionsJSON_no_key:
  "\<forall>k. \<not> occursAt r questionsKey k \<Longrightarrow> questionsJSON r = Some None"
proof -
  assume a: "\<forall>k. \<not> occursAt r questionsKey k"
  have "Index r questionsKey = - 1"
  proof (rule ccontr)
    assume "Index r questionsKey \<noteq> - 1"
    from Index_some [OF this] a show False by blast
  qed
  then show ?thesis by (simp add: questionsJSON_def)
qed

lemma questionsJSON_balanced:
  assumes f: "firstAt r s" and z: "returnsToZero r s e"
  shows "questionsJSON r = Some (Some (take (Suc e - s) (drop s r)))"
proof -
  from f have oc: "occursAt r questionsKey s" by (simp add: firstAt_def)
  note sb = occursAt_key_brace [OF oc]
  have sc: "scanBraces r (int s) 0 = Some (int e)" using scan_returns sb z by blast
  from z have "s \<le> Suc e" "e < length r" by (simp_all add: returnsToZero_def)
  from slice_take_drop [OF this] show ?thesis
    by (simp add: questionsJSON_def firstAt_Index [OF f] sc)
qed

lemma questionsJSON_fallback:
  assumes f: "firstAt r s" and z: "\<forall>e. \<not> returnsToZero r s e" and c: "firstClose r s e"
  shows "questionsJSON r = Some (Some (take (Suc e - s) (drop s r)))"
proof -
  from f have oc: "occursAt r questionsKey s" by (simp add: firstAt_def)
  note sb = occursAt_key_brace [OF oc]
  have sc: "scanBraces r (int s) 0 = Some (- 1)" using scan_never sb z by blast
  from c have se: "s \<le> e" "e < length r" by (simp_all add: firstClose_def)
  then have sl: "slice r (int s) (int e + 1) = Some (take (Suc e - s) (drop s r))"
    by (intro slice_take_drop) simp_all
  have ix: "Index (drop s r) ''}'' + int s = int e"
    using Index_close_found [OF c] se by simp
  have sf: "sliceFrom r (int s) = Some (drop s r)" using sb by (simp add: sliceFrom_drop)
  show ?thesis
    by (simp add: questionsJSON_def firstAt_Index [OF f] sc sf ix sl)
qed

lemma questionsJSON_no_close:
  assumes f: "firstAt r s" and z: "\<forall>e. \<not> returnsToZero r s e" and c: "\<forall>e. \<not> firstClose r s e"
  shows "questionsJSON r = (if s = 0 then Some None else Some (Some []))"
proof -
  from f have oc: "occursAt r questionsKey s" by (simp add: firstAt_def)
  note sb = occursAt_key_brace [OF oc]
  have sc: "scanBraces r (int s) 0 = Some (- 1)" using scan_never sb z by blast
  have ix: "Index (drop s r) ''}'' = - 1" by (rule Index_close_none [OF c])
  have sf: "sliceFrom r (int s) = Some (drop s r)" using sb by (simp add: sliceFrom_drop)
  have sl: "slice r (int s) (int s) = Some []" using sb by (simp add: slice_def)
  show ?thesis
    by (simp add: questionsJSON_def firstAt_Index [OF f] sc sf ix sl)
qed

lemma firstClose_or_none:
  "(\<exists>e. firstClose r s e) \<or> (\<forall>e. s \<le> e \<and> e < length r \<longrightarrow> r ! e \<noteq> CHR ''}'')"
proof (cases "\<exists>e. s \<le> e \<and> e < length r \<and> r ! e = CHR ''}''")
  case False
  then show ?thesis by blast
next
  case True
  define P where "P e = (s \<le> e \<and> e < length r \<and> r ! e = CHR ''}'')" for e
  define m where "m = (LEAST e. P e)"
  from True have ex: "\<exists>e. P e" by (simp add: P_def)
  have pm: "P m" unfolding m_def using ex by (rule LeastI_ex)
  have least: "\<not> P k" if "k < m" for k using that unfolding m_def by (rule not_less_Least)
  have "r ! k \<noteq> CHR ''}''" if "s \<le> k \<and> k < m" for k
  proof -
    from that pm have "k < length r" by (simp add: P_def)
    with least [of k] that show ?thesis by (simp add: P_def)
  qed
  with pm have "firstClose r s m" by (simp add: firstClose_def P_def)
  then show ?thesis by blast
qed

lemma questionsJSON_total: "questionsJSON r \<noteq> None"
proof -
  consider "\<forall>k. \<not> occursAt r questionsKey k" | s where "firstAt r s"
    using no_key_or_firstAt by blast
  then show ?thesis
  proof cases
    case 1
    then show ?thesis by (simp add: questionsJSON_no_key)
  next
    case (2 s)
    show ?thesis
    proof (cases "\<exists>e. returnsToZero r s e")
      case True
      then show ?thesis using questionsJSON_balanced [OF 2] by auto
    next
      case nz: False
      show ?thesis
      proof (cases "\<exists>e. firstClose r s e")
        case True
        then show ?thesis using questionsJSON_fallback [OF 2] nz by auto
      next
        case False
        then show ?thesis using questionsJSON_no_close [OF 2] nz by auto
      qed
    qed
  qed
qed

lemma questionsJSON_endsAt:
  assumes "firstAt r s" "endsAt r s e"
  shows "questionsJSON r = Some (Some (take (Suc e - s) (drop s r)))"
  using assms questionsJSON_balanced questionsJSON_fallback
  unfolding endsAt_def never_returns_iff by blast

lemma extractQuestions_of_json:
  assumes "questionsJSON r = Some (Some js)" "unmarshal js = Some l"
  shows "extractQuestions unmarshal r =
           Some (if l = [] then ([], False)
                 else (map (\<lambda>q. \<lparr>Question = q, Answer = ''''\<rparr>) (take 3 l), True))"
  using assms by (cases l) (simp_all add: extractQuestions_def Let_def)

lemma extractQuestions_of_json_rejected:
  assumes "questionsJSON r = Some (Some js)" "unmarshal js = None"
  shows "extractQuestions unmarshal r = Some ([], False)"
  using assms by (simp add: extractQuestions_def)

lemma extractQuestions_cases:
  "extractQuestions unmarshal r = Some ([], False)
   \<or> (\<exists>js l. questionsJSON r = Some (Some js) \<and> unmarshal js = Some l \<and> l \<noteq> []
         \<and> extractQuestions unmarshal r = Some (map (\<lambda>q. \<lparr>Question = q, Answer = ''''\<rparr>) (take 3 l), True))"
proof (cases "questionsJSON r")
  case None
  then show ?thesis using questionsJSON_total by blast
next
  case (Some j)
  show ?thesis
  proof (cases j)
    case None
    with Some show ?thesis by (simp add: extractQuestions_def)
  next
    case js: (Some js)
    show ?thesis
    proof (cases "unmarshal js")
      case None
      with Some js show ?thesis by (simp add: extractQuestions_def)
    next
      case l: (Some l)
      from Some js have j: "questionsJSON r = Some (Some js)" by simp
      show ?thesis
        using extractQuestions_of_json [of r js unmarshal l] j l by (cases "l = []") auto
    qed
  qed
qed

lemma extractQuestions_total: "extractQuestions unmarshal r \<noteq> None"
  using extractQuestions_cases [of unmarshal r] by auto

lemma extractQuestions_flag:
  "extractQuestions unmarshal r = Some (qs, ok) \<Longrightarrow> ok = (qs \<noteq> []) \<and> length qs \<le> 3"
  using extractQuestions_cases [of unmarshal r] by auto

section \<open>The cases of extractPRDescription\<close>

lemma sliceTo_take: "s \<le> length r \<Longrightarrow> sliceTo r (int s) = Some (take s r)"
  by (simp add: sliceTo_def slice_def)

lemma sliceFrom_Suc: "e < length r \<Longrightarrow> sliceFrom r (int e + 1) = Some (drop (Suc e) r)"
  by (simp add: sliceFrom_def slice_def nat_add_distrib)

lemma Index_no_key: "\<forall>k. \<not> occursAt r questionsKey k \<Longrightarrow> Index r questionsKey = - 1"
proof (rule ccontr)
  assume a: "\<forall>k. \<not> occursAt r questionsKey k" and "Index r questionsKey \<noteq> - 1"
  from Index_some [OF this(2)] a show False by blast
qed

lemma extractPRDescription_only_questions:
  "TrimSpace r = [] \<or> HasPrefix (TrimSpace r) questionsKey \<Longrightarrow> extractPRDescription r = Some []"
  by (auto simp: extractPRDescription_def)

lemma extractPRDescription_no_key:
  assumes "\<not> (TrimSpace r = [] \<or> HasPrefix (TrimSpace r) questionsKey)"
    and "\<forall>k. \<not> occursAt r questionsKey k"
  shows "extractPRDescription r = Some r"
  using assms(1) Index_no_key [OF assms(2)] by (simp add: extractPRDescription_def)

lemma extractPRDescription_unbalanced:
  assumes n: "\<not> (TrimSpace r = [] \<or> HasPrefix (TrimSpace r) questionsKey)"
    and f: "firstAt r s" and z: "\<forall>e. \<not> returnsToZero r s e"
  shows "extractPRDescription r = Some r"
proof -
  from f have oc: "occursAt r questionsKey s" by (simp add: firstAt_def)
  note sb = occursAt_key_brace [OF oc]
  have sc: "scanBraces r (int s) 0 = Some (- 1)" using scan_never sb z by blast
  show ?thesis using n by (simp add: extractPRDescription_def firstAt_Index [OF f] sc)
qed

lemma extractPRDescription_balanced:
  assumes n: "\<not> (TrimSpace r = [] \<or> HasPrefix (TrimSpace r) questionsKey)"
    and f: "firstAt r s" and z: "returnsToZero r s e"
  shows "extractPRDescription r = Some (joined (TrimSpace (take s r)) (TrimSpace (drop (Suc e) r)))"
proof -
  from f have oc: "occursAt r questionsKey s" by (simp add: firstAt_def)
  note sb = occursAt_key_brace [OF oc]
  have sc: "scanBraces r (int s) 0 = Some (int e)" using scan_returns sb z by blast
  from z have el: "e < length r" by (simp add: returnsToZero_def)
  have st: "sliceTo r (int s) = Some (take s r)" using sb by (simp add: sliceTo_take)
  have sf: "sliceFrom r (int e + 1) = Some (drop (Suc e) r)" using el by (rule sliceFrom_Suc)
  show ?thesis
    using n by (simp add: extractPRDescription_def firstAt_Index [OF f] sc st sf joined_def Let_def)
qed

lemma extractPRDescription_total: "extractPRDescription r \<noteq> None"
proof (cases "TrimSpace r = [] \<or> HasPrefix (TrimSpace r) questionsKey")
  case True
  then show ?thesis by (simp add: extractPRDescription_only_questions)
next
  case n: False
  consider "\<forall>k. \<not> occursAt r questionsKey k" | s where "firstAt r s"
    using no_key_or_firstAt by blast
  then show ?thesis
  proof cases
    case 1
    with n show ?thesis by (simp add: extractPRDescription_no_key)
  next
    case (2 s)
    show ?thesis
    proof (cases "\<exists>e. returnsToZero r s e")
      case True
      then show ?thesis using extractPRDescription_balanced [OF n 2] by auto
    next
      case False
      then show ?thesis using extractPRDescription_unbalanced [OF n 2] by auto
    qed
  qed
qed

lemma extractQuestions_no_close:
  assumes u: "unmarshal [] = None" and f: "firstAt r s"
    and c: "\<forall>e \<in> {s..<length r}. r ! e \<noteq> CHR ''}''"
  shows "extractQuestions unmarshal r = Some ([], False)"
proof -
  from f have oc: "occursAt r questionsKey s" by (simp add: firstAt_def)
  note sb = occursAt_key_brace [OF oc]
  have nc: "\<forall>e. \<not> firstClose r s e"
    using c by (auto simp: firstClose_def)
  have nz: "\<forall>e. \<not> returnsToZero r s e"
  proof (rule ccontr)
    assume "\<not> (\<forall>e. \<not> returnsToZero r s e)"
    then obtain e where z: "returnsToZero r s e" by blast
    from scan_returns [OF sb [THEN conjunct1] sb [THEN conjunct2] z]
    have "scanBraces r (int s) 0 = Some (int e)" .
    then have sf: "scanFrom (drop s r) (int s) 0 = int e"
      using scanBraces_scanFrom [of "int s" r 0] by simp
    have dr: "drop s r = CHR ''{'' # drop (Suc s) r"
      using sb by (simp add: Cons_nth_drop_Suc [symmetric])
    from sf have "scanFrom (drop (Suc s) r) (int s + 1) 1 \<noteq> - 1" by (simp add: dr)
    from scanFrom_some [OF _ _ this] obtain k where
      k: "k < length (drop (Suc s) r)" "drop (Suc s) r ! k = CHR ''}''" by auto
    then have "Suc s + k \<in> {s..<length r}" "r ! (Suc s + k) = CHR ''}''" by auto
    with c show False by blast
  qed
  from questionsJSON_no_close [OF f nz nc] u show ?thesis
    by (simp add: extractQuestions_def)
qed

section \<open>The runs of GeneratePRMessage\<close>

lemma makeOpenAIRequest_content:
  "contentOf x = Some c \<Longrightarrow> makeOpenAIRequest x ms config = (Inr c, [requestOf config ms])"
  by (cases x) (auto simp: contentOf_def makeOpenAIRequest_def requestOf_def split: option.splits if_splits)

lemma foldl_qaMessages:
  "foldl (\<lambda>ms qa. if Answer qa \<noteq> ''''
                   then ms @ [\<lparr>Role = ''assistant'', Content = Question qa\<rparr>,
                              \<lparr>Role = ''user'', Content = Answer qa\<rparr>]
                   else ms) init qs
   = init @ qaMessages qs"
  by (induction qs arbitrary: init) (simp_all add: qaMessages_def)

lemma followUp_fold:
  "foldl (\<lambda>ms qa. if Answer qa \<noteq> ''''
                   then ms @ [\<lparr>Role = ''assistant'', Content = Question qa\<rparr>,
                              \<lparr>Role = ''user'', Content = Answer qa\<rparr>]
                   else ms)
     [\<lparr>Role = ''system'',
       Content = Sprintf (getQuestionsPrompt (EnableQuestions config)) [prPromptText, template]\<rparr>,
      userMessage commits, noticeMessage] qs
   @ [finalMessage]
   = followUpMessages config commits template qs"
  by (simp add: foldl_qaMessages followUpMessages_def firstMessages_def)

lemma GeneratePRMessage_unfold:
  "GeneratePRMessage unmarshal mapLower world stdin commits config template =
     (if APIKey config = ''''
      then Some \<lparr>returned = Inl MissingAPIKey, requests = [], unread = stdin\<rparr>
      else
        case makeOpenAIRequest (world 0) (firstMessages config commits template) config of
          (Inl err, sent) \<Rightarrow> Some \<lparr>returned = Inl err, requests = sent, unread = stdin\<rparr>
        | (Inr response, sent) \<Rightarrow>
            (case extractQuestions unmarshal response of
               None \<Rightarrow> None
             | Some (qs, ok) \<Rightarrow>
                 if ok \<and> EnableQuestions config then
                   (case askUserQuestions mapLower qs stdin of
                      (qs', stdin') \<Rightarrow>
                        if list_ex (\<lambda>q. Answer q \<noteq> '''') qs' then
                          (case makeOpenAIRequest (world 1)
                                  (followUpMessages config commits template qs') config of
                             (Inl err, sent') \<Rightarrow>
                               Some \<lparr>returned = Inl err, requests = sent @ sent', unread = stdin'\<rparr>
                           | (Inr response', sent') \<Rightarrow>
                               Some \<lparr>returned = Inr (TrimSpace response'),
                                     requests = sent @ sent', unread = stdin'\<rparr>)
                        else
                          (case extractPRDescription response of
                             None \<Rightarrow> None
                           | Some response' \<Rightarrow>
                               Some \<lparr>returned = Inr (TrimSpace response'), requests = sent,
                                     unread = stdin'\<rparr>))
                 else Some \<lparr>returned = Inr (TrimSpace response), requests = sent,
                            unread = stdin\<rparr>))"
  unfolding GeneratePRMessage_def Let_def followUp_fold firstMessages_def [symmetric]
  by (rule refl)

lemma GeneratePRMessage_no_key:
  "APIKey config = '''' \<Longrightarrow>
   GeneratePRMessage unmarshal mapLower world stdin commits config template
     = Some \<lparr>returned = Inl MissingAPIKey, requests = [], unread = stdin\<rparr>"
  by (simp add: GeneratePRMessage_unfold)

lemma GeneratePRMessage_plain:
  assumes "APIKey config \<noteq> ''''" "contentOf (world 0) = Some response"
    and "extractQuestions unmarshal response = Some (qs, ok)" "\<not> (ok \<and> EnableQuestions config)"
  shows "GeneratePRMessage unmarshal mapLower world stdin commits config template
           = Some \<lparr>returned = Inr (TrimSpace response),
                   requests = [requestOf config (firstMessages config commits template)],
                   unread = stdin\<rparr>"
  using assms(1,3,4)
        makeOpenAIRequest_content [OF assms(2), of "firstMessages config commits template" config]
  by (cases ok; cases "EnableQuestions config") (simp_all add: GeneratePRMessage_unfold)

lemma GeneratePRMessage_unanswered:
  assumes "APIKey config \<noteq> ''''" "contentOf (world 0) = Some response"
    and "extractQuestions unmarshal response = Some (qs, True)" "EnableQuestions config"
    and "\<not> list_ex (\<lambda>q. Answer q \<noteq> '''') (fst (askUserQuestions mapLower qs stdin))"
    and "extractPRDescription response = Some d"
  shows "GeneratePRMessage unmarshal mapLower world stdin commits config template
           = Some \<lparr>returned = Inr (TrimSpace d),
                   requests = [requestOf config (firstMessages config commits template)],
                   unread = snd (askUserQuestions mapLower qs stdin)\<rparr>"
  using assms(1,3,4,5,6)
        makeOpenAIRequest_content [OF assms(2), of "firstMessages config commits template" config]
  by (cases "askUserQuestions mapLower qs stdin") (simp add: GeneratePRMessage_unfold)

lemma GeneratePRMessage_answered:
  assumes "APIKey config \<noteq> ''''" "contentOf (world 0) = Some response"
    and "extractQuestions unmarshal response = Some (qs, True)" "EnableQuestions config"
    and "list_ex (\<lambda>q. Answer q \<noteq> '''') (fst (askUserQuestions mapLower qs stdin))"
  shows "GeneratePRMessage unmarshal mapLower world stdin commits config template
           = Some \<lparr>returned =
                     map_sum id TrimSpace
                       (fst (makeOpenAIRequest (world 1)
                               (followUpMessages config commits template
                                  (fst (askUserQuestions mapLower qs stdin))) config)),
                   requests =
                     requestOf config (firstMessages config commits template)
                     # snd (makeOpenAIRequest (world 1)
                              (followUpMessages config commits template
                                 (fst (askUserQuestions mapLower qs stdin))) config),
                   unread = snd (askUserQuestions mapLower qs stdin)\<rparr>"
proof -
  obtain qs' rest where a: "askUserQuestions mapLower qs stdin = (qs', rest)"
    by (cases "askUserQuestions mapLower qs stdin")
  let ?ms = "followUpMessages config commits template qs'"
  obtain res sent where m: "makeOpenAIRequest (world 1) ?ms config = (res, sent)"
    by (cases "makeOpenAIRequest (world 1) ?ms config")
  show ?thesis
    using assms(1,3,4,5) a m
          makeOpenAIRequest_content [OF assms(2), of "firstMessages config commits template" config]
    by (cases res) (simp_all add: GeneratePRMessage_unfold)
qed

section \<open>Skipping the remaining questions\<close>

lemma ToLower_empty: "ToLower mapLower [] = []"
  by (simp add: ToLower_def)

lemma isSkipAll_nonempty: "isSkipAll mapLower a \<Longrightarrow> a \<noteq> []"
  by (auto simp: isSkipAll_def ToLower_empty)

lemma readLines_length: "readLines n stdin = (lines, rest) \<Longrightarrow> length lines = n"
proof (induction n arbitrary: stdin lines rest)
  case 0
  then show ?case by simp
next
  case (Suc n)
  obtain l r where rd: "ReadString CHR ''\<newline>'' stdin = (l, r)"
    by (cases "ReadString CHR ''\<newline>'' stdin")
  obtain ls r' where rl: "readLines n r = (ls, r')" by (cases "readLines n r")
  from Suc.prems rd rl have "lines = l # ls" by simp
  with Suc.IH [OF rl] show ?case by simp
qed

lemma askUserQuestions_skip_all:
  assumes "i < length questions"
    and "readLines (Suc i) stdin = (lines, rest)"
    and "\<forall>k \<in> {0..<i}. \<not> isSkipAll mapLower (TrimSpace (lines ! k))"
    and "isSkipAll mapLower (TrimSpace (lines ! i))"
  shows "askUserQuestions mapLower questions stdin =
           (map2 (\<lambda>q l. q\<lparr>Answer := TrimSpace l\<rparr>) (take (Suc i) questions) lines
              @ map (\<lambda>q. q\<lparr>Answer := ''''\<rparr>) (drop (Suc i) questions),
            rest)"
  using assms
proof (induction questions arbitrary: i stdin lines rest)
  case Nil
  then show ?case by simp
next
  case (Cons q questions)
  obtain l r where rd: "ReadString CHR ''\<newline>'' stdin = (l, r)"
    by (cases "ReadString CHR ''\<newline>'' stdin")
  obtain ls r' where rl: "readLines i r = (ls, r')" by (cases "readLines i r")
  from Cons.prems(2) rd rl have lines: "lines = l # ls" and rest: "rest = r'" by simp_all
  show ?case
  proof (cases i)
    case 0
    with rl have "ls = []" "r' = r" by simp_all
    with Cons.prems(4) 0 lines rest rd show ?thesis
      by (simp add: isSkipAll_def Let_def)
  next
    case (Suc j)
    have "0 \<in> {0..<i}" using Suc by simp
    with Cons.prems(3) have "\<not> isSkipAll mapLower (TrimSpace (lines ! 0))" by blast
    then have ns: "\<not> isSkipAll mapLower (TrimSpace l)" using lines by simp
    from Cons.prems(1) Suc have j: "j < length questions" by simp
    from rl Suc have rl': "readLines (Suc j) r = (ls, rest)" using rest by simp
    have nk: "\<forall>k \<in> {0..<j}. \<not> isSkipAll mapLower (TrimSpace (ls ! k))"
    proof
      fix k assume "k \<in> {0..<j}"
      then have "Suc k \<in> {0..<i}" using Suc by simp
      with Cons.prems(3) have "\<not> isSkipAll mapLower (TrimSpace (lines ! Suc k))" by blast
      then show "\<not> isSkipAll mapLower (TrimSpace (ls ! k))" using lines by simp
    qed
    from Cons.prems(4) Suc lines have sk: "isSkipAll mapLower (TrimSpace (ls ! j))" by simp
    from Cons.IH [OF j rl' nk sk] ns rd Suc lines show ?thesis
      by (simp add: isSkipAll_def Let_def)
  qed
qed

lemma contentOf_built: "contentOf x = Some c \<Longrightarrow> built x"
  by (cases x) (simp_all add: contentOf_def built_def)

lemma makeOpenAIRequest_eq:
  "makeOpenAIRequest x ms config = (outcomeOf x, if built x then [requestOf config ms] else [])"
  by (cases x)
     (auto simp: makeOpenAIRequest_def outcomeOf_def contentOf_def built_def requestOf_def
           split: option.splits)

lemma GenerateCommitMessage_eq:
  "GenerateCommitMessage x diff config template =
     (if APIKey config = '''' then (Inl MissingAPIKey, [])
      else (map_sum id TrimSpace (outcomeOf x),
            if built x
            then [requestOf config
                    [\<lparr>Role = ''system'', Content = Sprintf commitPromptFormat [template]\<rparr>,
                     \<lparr>Role = ''user'',
                      Content = Sprintf ''Here is the git diff:\<newline>\<newline>%s'' [diff]\<rparr>]]
            else []))"
  by (cases x)
     (auto simp: GenerateCommitMessage_def outcomeOf_def contentOf_def built_def requestOf_def Let_def
           split: option.splits)

lemma GeneratePRMessage_v0_eq:
  "GeneratePRMessage_v0 x commits config template =
     (if APIKey config = '''' then (Inl MissingAPIKey, [])
      else (map_sum id TrimSpace (outcomeOf x),
            if built x
            then [requestOf config
                    [\<lparr>Role = ''system'', Content = Sprintf prPromptFormat_v0 [template]\<rparr>,
                     \<lparr>Role = ''user'',
                      Content = Sprintf ''Here are the commit messages from the branch:\<newline>\<newline>%s''
                                  [commits]\<rparr>]]
            else []))"
  by (cases x)
     (auto simp: GeneratePRMessage_v0_def outcomeOf_def contentOf_def built_def requestOf_def Let_def
           split: option.splits)

lemma outcomeOf_content: "contentOf x = Some c \<Longrightarrow> outcomeOf x = Inr c"
  by (simp add: outcomeOf_def)

lemma outcomeOf_failure: "contentOf x = None \<Longrightarrow> outcomeOf x = Inl (failureOf x)"
  by (simp add: outcomeOf_def)

lemma GeneratePRMessage_first_failure:
  assumes "APIKey config \<noteq> ''''" "contentOf (world 0) = None"
  shows "GeneratePRMessage unmarshal mapLower world stdin commits config template
           = Some \<lparr>returned = Inl (failureOf (world 0)),
                   requests = (if built (world 0)
                               then [requestOf config (firstMessages config commits template)] else []),
                   unread = stdin\<rparr>"
  using assms by (simp add: GeneratePRMessage_unfold makeOpenAIRequest_eq outcomeOf_failure)

lemma GeneratePRMessage_followUp:
  assumes "APIKey config \<noteq> ''''" "contentOf (world 0) = Some response"
    and "extractQuestions unmarshal response = Some (qs, True)" "EnableQuestions config"
    and "list_ex (\<lambda>q. Answer q \<noteq> '''') (fst (askUserQuestions mapLower qs stdin))"
  shows "GeneratePRMessage unmarshal mapLower world stdin commits config template
           = Some \<lparr>returned = map_sum id TrimSpace (outcomeOf (world 1)),
                   requests =
                     requestOf config (firstMessages config commits template)
                     # (if built (world 1)
                        then [requestOf config
                                (followUpMessages config commits template
                                   (fst (askUserQuestions mapLower qs stdin)))]
                        else []),
                   unread = snd (askUserQuestions mapLower qs stdin)\<rparr>"
  using GeneratePRMessage_answered [where world = world and config = config and response = response
          and unmarshal = unmarshal and qs = qs and mapLower = mapLower and stdin = stdin] assms
  by (simp add: makeOpenAIRequest_eq)

lemma Sprintf_userMessage:
  "Content (userMessage commits) = ''Here are the commit messages from the branch:\<newline>\<newline>'' @ commits"
  by (simp add: userMessage_def)

lemma GeneratePRMessage_cases:
  obtains
    (no_key) "APIKey config = ''''"
      "\<not> wantsFollowUp unmarshal mapLower world stdin config"
      "GeneratePRMessage unmarshal mapLower world stdin commits config template
         = Some \<lparr>returned = Inl MissingAPIKey, requests = [], unread = stdin\<rparr>"
  | (failed) "APIKey config \<noteq> ''''" "contentOf (world 0) = None"
      "\<not> wantsFollowUp unmarshal mapLower world stdin config"
      "GeneratePRMessage unmarshal mapLower world stdin commits config template
         = Some \<lparr>returned = Inl (failureOf (world 0)),
                 requests = (if built (world 0)
                             then [requestOf config (firstMessages config commits template)] else []),
                 unread = stdin\<rparr>"
  | (plain) response qs ok where "APIKey config \<noteq> ''''" "contentOf (world 0) = Some response"
      "extractQuestions unmarshal response = Some (qs, ok)" "\<not> (ok \<and> EnableQuestions config)"
      "\<not> wantsFollowUp unmarshal mapLower world stdin config"
      "GeneratePRMessage unmarshal mapLower world stdin commits config template
         = Some \<lparr>returned = Inr (TrimSpace response),
                 requests = [requestOf config (firstMessages config commits template)],
                 unread = stdin\<rparr>"
  | (unanswered) response qs d where "APIKey config \<noteq> ''''" "contentOf (world 0) = Some response"
      "extractQuestions unmarshal response = Some (qs, True)" "EnableQuestions config"
      "\<not> list_ex (\<lambda>q. Answer q \<noteq> '''') (fst (askUserQuestions mapLower qs stdin))"
      "extractPRDescription response = Some d"
      "\<not> wantsFollowUp unmarshal mapLower world stdin config"
      "GeneratePRMessage unmarshal mapLower world stdin commits config template
         = Some \<lparr>returned = Inr (TrimSpace d),
                 requests = [requestOf config (firstMessages config commits template)],
                 unread = snd (askUserQuestions mapLower qs stdin)\<rparr>"
  | (answered) response qs where "APIKey config \<noteq> ''''" "contentOf (world 0) = Some response"
      "extractQuestions unmarshal response = Some (qs, True)" "EnableQuestions config"
      "list_ex (\<lambda>q. Answer q \<noteq> '''') (fst (askUserQuestions mapLower qs stdin))"
      "wantsFollowUp unmarshal mapLower world stdin config"
      "GeneratePRMessage unmarshal mapLower world stdin commits config template
         = Some \<lparr>returned = map_sum id TrimSpace (outcomeOf (world 1)),
                 requests =
                   requestOf config (firstMessages config commits template)
                   # (if built (world 1)
                      then [requestOf config
                              (followUpMessages config commits template
                                 (fst (askUserQuestions mapLower qs stdin)))]
                      else []),
                 unread = snd (askUserQuestions mapLower qs stdin)\<rparr>"
proof (cases "APIKey config = ''''")
  case True
  then have "\<not> wantsFollowUp unmarshal mapLower world stdin config"
    by (simp add: wantsFollowUp_def)
  with True show ?thesis by (intro no_key) (simp_all add: GeneratePRMessage_no_key)
next
  case key: False
  show ?thesis
  proof (cases "contentOf (world 0)")
    case None
    then have "\<not> wantsFollowUp unmarshal mapLower world stdin config"
      by (simp add: wantsFollowUp_def)
    with key None show ?thesis
      by (intro failed) (simp_all add: GeneratePRMessage_first_failure)
  next
    case (Some response)
    obtain qs ok where ex: "extractQuestions unmarshal response = Some (qs, ok)"
      using extractQuestions_total [of unmarshal response]
      by (cases "extractQuestions unmarshal response") auto
    show ?thesis
    proof (cases "ok \<and> EnableQuestions config")
      case False
      then have nw: "\<not> wantsFollowUp unmarshal mapLower world stdin config"
        using Some ex by (auto simp: wantsFollowUp_def)
      from GeneratePRMessage_plain [where world = world, OF key Some ex False] nw key Some ex False
      show ?thesis by (intro plain) auto
    next
      case True
      with ex have ex': "extractQuestions unmarshal response = Some (qs, True)"
        and eq: "EnableQuestions config" by simp_all
      show ?thesis
      proof (cases "list_ex (\<lambda>q. Answer q \<noteq> '''') (fst (askUserQuestions mapLower qs stdin))")
        case ans: True
        then have w: "wantsFollowUp unmarshal mapLower world stdin config"
          using key Some ex' eq by (simp add: wantsFollowUp_def)
        from GeneratePRMessage_followUp [where world = world, OF key Some ex' eq ans] w key Some ex' eq ans
        show ?thesis by (intro answered) auto
      next
        case una: False
        then have nw: "\<not> wantsFollowUp unmarshal mapLower world stdin config"
          using key Some ex' eq by (simp add: wantsFollowUp_def)
        obtain d where d: "extractPRDescription response = Some d"
          using extractPRDescription_total [of response]
          by (cases "extractPRDescription response") auto
        from GeneratePRMessage_unanswered [where world = world, OF key Some ex' eq una d]
             nw key Some ex' eq una d
        show ?thesis by (intro unanswered) auto
      qed
    qed
  qed
qed

lemma outcomeOf_Decoded:
  "outcomeOf (Decoded resp) =
     (case Error resp of
        Some m \<Rightarrow> Inl (APIError m)
      | None \<Rightarrow> if Choices resp = [] then Inl NoResponse
                else Inr (Content (Message (hd (Choices resp)))))"
  by (simp add: outcomeOf_def contentOf_def split: option.splits)

lemma contentOf_Decoded:
  "contentOf (Decoded resp) =
     (if Error resp = None \<and> Choices resp \<noteq> [] then Some (Content (Message (hd (Choices resp))))
      else None)"
  by (simp add: contentOf_def split: option.splits)

lemma built_Decoded: "built (Decoded resp)"
  by (simp add: built_def)

section \<open>Claims\<close>

text \<open>
  C1, as the code has it. The payload starts at the first \<open>{"questions":\<close> and ends at
  the first position where the brace counter returns to zero or, when it never does, at
  the first \<open>}\<close> after the start (\<open>endsAt\<close>). \<^verbatim>\<open>extractQuestions\<close> reports questions
  (a non-empty slice and true) if and only if the literal is present, such an end exists
  and the text between them decodes to a non-empty array; otherwise it returns nil and
  false. The decoder is any decoder that rejects the empty input.
\<close>

theorem extractQuestions_reports_iff:
  assumes "unmarshal [] = None"
  shows "\<exists>qs ok. extractQuestions unmarshal response = Some (qs, ok)
           \<and> (ok \<longleftrightarrow> qs \<noteq> [])
           \<and> (ok \<longleftrightarrow> (\<exists>s e l. firstAt response s \<and> endsAt response s e
                          \<and> unmarshal (take (Suc e - s) (drop s response)) = Some l \<and> l \<noteq> []))"
proof -
  obtain qs ok where ex: "extractQuestions unmarshal response = Some (qs, ok)"
    using extractQuestions_total [of unmarshal response]
    by (cases "extractQuestions unmarshal response") auto
  from extractQuestions_flag [OF ex] have fl: "ok \<longleftrightarrow> qs \<noteq> []" by simp
  have rl: "ok"
    if h: "firstAt response s \<and> endsAt response s e
           \<and> unmarshal (take (Suc e - s) (drop s response)) = Some l \<and> l \<noteq> []" for s e l
  proof -
    from h have j: "questionsJSON response = Some (Some (take (Suc e - s) (drop s response)))"
      by (simp add: questionsJSON_endsAt)
    from extractQuestions_of_json [of response "take (Suc e - s) (drop s response)" unmarshal l] j h ex
    show ?thesis by simp
  qed
  have lr: "\<exists>s e l. firstAt response s \<and> endsAt response s e
                 \<and> unmarshal (take (Suc e - s) (drop s response)) = Some l \<and> l \<noteq> []" if "ok"
  proof -
    from extractQuestions_cases [of unmarshal response] ex \<open>ok\<close> obtain js l where
      j: "questionsJSON response = Some (Some js)" and l: "unmarshal js = Some l" "l \<noteq> []"
      by auto
    from j have "\<not> (\<forall>k. \<not> occursAt response questionsKey k)"
      using questionsJSON_no_key [of response] by auto
    with no_key_or_firstAt [of response] obtain s where f: "firstAt response s" by blast
    show ?thesis
    proof (cases "\<exists>e. returnsToZero response s e")
      case True
      then obtain e where z: "returnsToZero response s e" by blast
      from questionsJSON_balanced [OF f z] j
      have "js = take (Suc e - s) (drop s response)" by simp
      moreover from z have "endsAt response s e" by (simp add: endsAt_def)
      ultimately show ?thesis using f l by blast
    next
      case False
      then have nz: "\<forall>e. \<not> returnsToZero response s e" by blast
      show ?thesis
      proof (cases "\<exists>e. firstClose response s e")
        case True
        then obtain e where c: "firstClose response s e" by blast
        from questionsJSON_fallback [OF f nz c] j
        have "js = take (Suc e - s) (drop s response)" by simp
        moreover from nz c have "endsAt response s e"
          by (simp add: endsAt_def never_returns_iff)
        ultimately show ?thesis using f l by blast
      next
        case False
        then have "\<forall>e. \<not> firstClose response s e" by blast
        from questionsJSON_no_close [OF f nz this] j have "js = []"
          by (simp split: if_splits)
        with l(1) assms show ?thesis by simp
      qed
    qed
  qed
  from ex fl rl lr show ?thesis by blast
qed

theorem extractQuestions_reports_iff_witness:
  "decodeQuestions [] = None
   \<and> extractQuestions decodeQuestions ''ok {\"questions\": [\"a\"]} bye''
       = Some ([\<lparr>Question = ''a'', Answer = ''''\<rparr>], True)"
proof -
  let ?r = "''ok {\"questions\": [\"a\"]} bye''"
  have d: "decodeQuestions [] = None" by code_simp
  have f: "firstAt ?r 3" by code_simp
  have e: "endsAt ?r 3 22" by code_simp
  have u: "decodeQuestions (take (Suc 22 - 3) (drop 3 ?r)) = Some [''a'']" by code_simp
  from extractQuestions_reports_iff [of decodeQuestions ?r] d obtain qs ok where
    a: "extractQuestions decodeQuestions ?r = Some (qs, ok)"
    and b: "ok \<longleftrightarrow> (\<exists>s e l. firstAt ?r s \<and> endsAt ?r s e
                  \<and> decodeQuestions (take (Suc e - s) (drop s ?r)) = Some l \<and> l \<noteq> [])"
    by blast
  from b f e u have ok by blast
  moreover from extractQuestions_of_json [of ?r "take (Suc 22 - 3) (drop 3 ?r)" decodeQuestions "[''a'']"]
    questionsJSON_endsAt [OF f e] u
  have "extractQuestions decodeQuestions ?r = Some ([\<lparr>Question = ''a'', Answer = ''''\<rparr>], True)"
    by simp
  ultimately show ?thesis using a d by simp
qed

theorem counter_never_zero_counterexample:
  "scanBraces ''{\"questions\": [\"{\"]}'' (Index ''{\"questions\": [\"{\"]}'' questionsKey) 0
     = Some (- 1)
   \<and> extractQuestions decodeQuestions ''{\"questions\": [\"{\"]}''
       = Some ([\<lparr>Question = ''{'', Answer = ''''\<rparr>], True)"
  by code_simp




text \<open>
  C3. When \<^verbatim>\<open>GeneratePRMessage\<close> issues its second request, the messages of that
  request are those of the first request (the same system prompt, and the user message
  with the commit messages), then the assistant's notice, then for each question with a
  non-empty answer, in the order of the questions, an assistant message with the question
  and a user message with the answer, and last the user message asking for the
  description.
\<close>

theorem followUp_replays_context:
  assumes "GeneratePRMessage unmarshal mapLower world stdin commits config template = Some run"
    and "length (requests run) = 2"
  shows "\<exists>response qs. contentOf (world 0) = Some response
           \<and> extractQuestions unmarshal response = Some (qs, True)
           \<and> Messages (requests run ! 0) =
               [\<lparr>Role = ''system'',
                 Content = Sprintf (getQuestionsPrompt (EnableQuestions config))
                             [prPromptText, template]\<rparr>,
                \<lparr>Role = ''user'',
                 Content = ''Here are the commit messages from the branch:\<newline>\<newline>'' @ commits\<rparr>]
           \<and> Messages (requests run ! 1) =
               Messages (requests run ! 0) @ [noticeMessage]
               @ concat (map (\<lambda>qa. [\<lparr>Role = ''assistant'', Content = Question qa\<rparr>,
                                     \<lparr>Role = ''user'', Content = Answer qa\<rparr>])
                             (filter (\<lambda>qa. Answer qa \<noteq> '''')
                                     (fst (askUserQuestions mapLower qs stdin))))
               @ [finalMessage]
           \<and> map Question (fst (askUserQuestions mapLower qs stdin)) = map Question qs"
proof -
  have um: "userMessage commits =
      \<lparr>Role = ''user'', Content = ''Here are the commit messages from the branch:\<newline>\<newline>'' @ commits\<rparr>"
    using Sprintf_userMessage [of commits] by (simp add: userMessage_def)
  have fm: "firstMessages config commits template =
      [\<lparr>Role = ''system'',
        Content = Sprintf (getQuestionsPrompt (EnableQuestions config)) [prPromptText, template]\<rparr>,
       \<lparr>Role = ''user'', Content = ''Here are the commit messages from the branch:\<newline>\<newline>'' @ commits\<rparr>]"
    by (simp add: firstMessages_def um)
  have keep: "map Question (fst (askUserQuestions mapLower qs stdin)) = map Question qs" for qs
  proof (induction qs arbitrary: stdin)
    case Nil
    show ?case by simp
  next
    case (Cons q qs)
    obtain answer rest where rd: "ReadString CHR ''\<newline>'' stdin = (answer, rest)"
      by (cases "ReadString CHR ''\<newline>'' stdin")
    obtain qs' rest' where rec: "askUserQuestions mapLower qs rest = (qs', rest')"
      by (cases "askUserQuestions mapLower qs rest")
    from Cons.IH [of rest] rec have "map Question qs' = map Question qs" by simp
    then show ?case by (simp add: rd rec Let_def comp_def)
  qed
  show ?thesis
  proof (cases rule: GeneratePRMessage_cases [of config unmarshal mapLower world stdin commits template])
    case no_key
    with assms(1) have "requests run = []" by auto
    with assms(2) show ?thesis by simp
  next
    case failed
    with assms(1) have "length (requests run) \<le> 1" by auto
    with assms(2) show ?thesis by simp
  next
    case (plain response qs ok)
    with assms(1) have "length (requests run) = 1" by auto
    with assms(2) show ?thesis by simp
  next
    case (unanswered response qs d)
    with assms(1) have "length (requests run) = 1" by auto
    with assms(2) show ?thesis by simp
  next
    case (answered response qs)
    from answered(7) assms(1)
    have run: "run = \<lparr>returned = map_sum id TrimSpace (outcomeOf (world 1)),
                 requests =
                   requestOf config (firstMessages config commits template)
                   # (if built (world 1)
                      then [requestOf config
                              (followUpMessages config commits template
                                 (fst (askUserQuestions mapLower qs stdin)))]
                      else []),
                 unread = snd (askUserQuestions mapLower qs stdin)\<rparr>" by simp
    with assms(2) have b: "built (world 1)" by (simp split: if_splits)
    have m0: "Messages (requests run ! 0) = firstMessages config commits template"
      by (simp add: run requestOf_def)
    have m1: "Messages (requests run ! 1) =
                followUpMessages config commits template (fst (askUserQuestions mapLower qs stdin))"
      using b by (simp add: run requestOf_def)
    show ?thesis
      using answered(2,3) m0 m1 keep [of qs]
      by (intro exI [of _ response] exI [of _ qs])
         (simp add: followUpMessages_def qaMessages_def fm)
  qed
qed

theorem followUp_replays_context_witness:
  "map_option (map (map Content \<circ> Messages) \<circ> requests)
     (GeneratePRMessage decodeQuestions id
        (\<lambda>k. if k = 0 then reply ''{\"questions\": [\"why?\", \"how?\"]}'' else reply ''Done'')
        ''\<newline>by hand\<newline>'' ''fix bug'' (exampleConfig ''sk-test'' False\<lparr>EnableQuestions := True\<rparr>) ''T'')
   = Some [[Sprintf questionsPrompt [prPromptText, ''T''],
            ''Here are the commit messages from the branch:\<newline>\<newline>fix bug''],
           [Sprintf questionsPrompt [prPromptText, ''T''],
            ''Here are the commit messages from the branch:\<newline>\<newline>fix bug'',
            ''I need some additional information to write a better PR description.'',
            ''how?'', ''by hand'',
            ''Now that you have this additional information, please generate a comprehensive PR description using the template provided earlier.'']]"
proof -
  let ?w = "\<lambda>k::nat. if k = 0 then reply ''{\"questions\": [\"why?\", \"how?\"]}'' else reply ''Done''"
  let ?c = "exampleConfig ''sk-test'' False\<lparr>EnableQuestions := True\<rparr>"
  let ?g = "GeneratePRMessage decodeQuestions id ?w ''\<newline>by hand\<newline>'' ''fix bug'' ?c ''T''"
  have w: "wantsFollowUp decodeQuestions id ?w ''\<newline>by hand\<newline>'' ?c" by code_simp
  have b: "built (?w 1)" by code_simp
  have c0: "contentOf (?w 0) = Some ''{\"questions\": [\"why?\", \"how?\"]}''" by code_simp
  have e: "extractQuestions decodeQuestions ''{\"questions\": [\"why?\", \"how?\"]}''
             = Some ([\<lparr>Question = ''why?'', Answer = ''''\<rparr>, \<lparr>Question = ''how?'', Answer = ''''\<rparr>], True)"
    by code_simp
  have a: "fst (askUserQuestions id [\<lparr>Question = ''why?'', Answer = ''''\<rparr>, \<lparr>Question = ''how?'', Answer = ''''\<rparr>]
                  ''\<newline>by hand\<newline>'')
             = [\<lparr>Question = ''why?'', Answer = ''''\<rparr>, \<lparr>Question = ''how?'', Answer = ''by hand''\<rparr>]"
    by code_simp
  have q: "EnableQuestions ?c" by (simp add: exampleConfig_def)
  have k: "APIKey ?c \<noteq> []" by (simp add: exampleConfig_def)
  have an: "list_ex (\<lambda>q. Answer q \<noteq> [])
              (fst (askUserQuestions id [\<lparr>Question = ''why?'', Answer = []\<rparr>, \<lparr>Question = ''how?'', Answer = []\<rparr>]
                      ''\<newline>by hand\<newline>''))"
    by code_simp
  obtain run where r: "?g = Some run" and l: "length (requests run) = 2"
    using GeneratePRMessage_followUp [where world = ?w and commits = "''fix bug''" and template = "''T''",
            OF k c0 e q an] b
    by simp
  from followUp_replays_context [OF r l] c0 e a q
  have m0: "Messages (requests run ! 0) =
              [\<lparr>Role = ''system'', Content = Sprintf questionsPrompt [prPromptText, ''T'']\<rparr>,
               \<lparr>Role = ''user'', Content = ''Here are the commit messages from the branch:\<newline>\<newline>fix bug''\<rparr>]"
    and m1: "Messages (requests run ! 1) =
              Messages (requests run ! 0) @ [noticeMessage]
              @ [\<lparr>Role = ''assistant'', Content = ''how?''\<rparr>, \<lparr>Role = ''user'', Content = ''by hand''\<rparr>]
              @ [finalMessage]"
    by (auto simp: getQuestionsPrompt_def)
  from l have "requests run = [requests run ! 0, requests run ! 1]"
    by (cases "requests run"; cases "tl (requests run)") auto
  then have "map (map Content \<circ> Messages) (requests run)
      = [map Content (Messages (requests run ! 0)), map Content (Messages (requests run ! 1))]"
    by (metis (no_types, lifting) comp_apply list.simps(8,9))
  then show ?thesis
    using r m0 m1 by (simp add: noticeMessage_def finalMessage_def)
qed

text \<open>
  C4, as the code has it. \<^verbatim>\<open>extractPRDescription\<close> returns the empty string when the
  trimmed response is empty or begins with \<open>{"questions":\<close>; otherwise the whole response
  when that literal does not occur or the brace counter never returns to zero; otherwise
  the text before the object and the text after it, each trimmed, joined by a blank line
  when both are non-empty. When questions are extracted and enabled and no answer is
  non-empty, \<^verbatim>\<open>GeneratePRMessage\<close> issues no second request and returns that result with
  surrounding white space trimmed.
\<close>

theorem unanswered_returns_description:
  "(TrimSpace r = '''' \<or> HasPrefix (TrimSpace r) questionsKey \<longrightarrow> extractPRDescription r = Some '''')
   \<and> (\<not> (TrimSpace r = '''' \<or> HasPrefix (TrimSpace r) questionsKey) \<longrightarrow>
         ((\<forall>s. \<not> firstAt r s) \<longrightarrow> extractPRDescription r = Some r)
         \<and> (\<forall>s. firstAt r s \<and> (\<forall>e. \<not> returnsToZero r s e) \<longrightarrow> extractPRDescription r = Some r)
         \<and> (\<forall>s e. firstAt r s \<and> returnsToZero r s e \<longrightarrow>
               extractPRDescription r
                 = Some (joined (TrimSpace (take s r)) (TrimSpace (drop (Suc e) r)))))
   \<and> (APIKey config \<noteq> '''' \<and> EnableQuestions config \<and> contentOf (world 0) = Some r
        \<and> extractQuestions unmarshal r = Some (qs, True)
        \<and> \<not> list_ex (\<lambda>q. Answer q \<noteq> '''') (fst (askUserQuestions mapLower qs stdin))
      \<longrightarrow> (\<exists>d. extractPRDescription r = Some d
             \<and> GeneratePRMessage unmarshal mapLower world stdin commits config template
                 = Some \<lparr>returned = Inr (TrimSpace d),
                         requests = [requestOf config (firstMessages config commits template)],
                         unread = snd (askUserQuestions mapLower qs stdin)\<rparr>))"
proof (intro conjI impI allI)
  assume "TrimSpace r = '''' \<or> HasPrefix (TrimSpace r) questionsKey"
  then show "extractPRDescription r = Some ''''" by (rule extractPRDescription_only_questions)
next
  assume n: "\<not> (TrimSpace r = '''' \<or> HasPrefix (TrimSpace r) questionsKey)"
    and "\<forall>s. \<not> firstAt r s"
  with no_key_or_firstAt [of r] have "\<forall>k. \<not> occursAt r questionsKey k" by blast
  with n show "extractPRDescription r = Some r" by (rule extractPRDescription_no_key)
next
  fix s
  assume n: "\<not> (TrimSpace r = '''' \<or> HasPrefix (TrimSpace r) questionsKey)"
    and "firstAt r s \<and> (\<forall>e. \<not> returnsToZero r s e)"
  then show "extractPRDescription r = Some r"
    using extractPRDescription_unbalanced [of r s] by blast
next
  fix s e
  assume n: "\<not> (TrimSpace r = '''' \<or> HasPrefix (TrimSpace r) questionsKey)"
    and "firstAt r s \<and> returnsToZero r s e"
  then show "extractPRDescription r = Some (joined (TrimSpace (take s r)) (TrimSpace (drop (Suc e) r)))"
    using extractPRDescription_balanced [of r s e] by blast
next
  assume h: "APIKey config \<noteq> '''' \<and> EnableQuestions config \<and> contentOf (world 0) = Some r
        \<and> extractQuestions unmarshal r = Some (qs, True)
        \<and> \<not> list_ex (\<lambda>q. Answer q \<noteq> '''') (fst (askUserQuestions mapLower qs stdin))"
  obtain d where d: "extractPRDescription r = Some d"
    using extractPRDescription_total [of r] by (cases "extractPRDescription r") auto
  from h d GeneratePRMessage_unanswered [where world = world and config = config and response = r
      and unmarshal = unmarshal and qs = qs and mapLower = mapLower and stdin = stdin and d = d]
  have "GeneratePRMessage unmarshal mapLower world stdin commits config template
          = Some \<lparr>returned = Inr (TrimSpace d),
                  requests = [requestOf config (firstMessages config commits template)],
                  unread = snd (askUserQuestions mapLower qs stdin)\<rparr>"
    by blast
  with d show "\<exists>d. extractPRDescription r = Some d
             \<and> GeneratePRMessage unmarshal mapLower world stdin commits config template
                 = Some \<lparr>returned = Inr (TrimSpace d),
                         requests = [requestOf config (firstMessages config commits template)],
                         unread = snd (askUserQuestions mapLower qs stdin)\<rparr>"
    by blast
qed

theorem unanswered_returns_description_witness:
  "map_option returned
     (GeneratePRMessage decodeQuestions id (always (reply ''Intro {\"questions\": [\"q\"]} tail ''))
        ''\<newline>'' ''fix bug'' (exampleConfig ''sk-test'' True) ''T'')
     = Some (Inr ''Intro\<newline>\<newline>tail'')
   \<and> extractPRDescription ''Intro {\"questions\": [\"q\"]} tail '' = Some ''Intro\<newline>\<newline>tail''
   \<and> extractPRDescription ''  {\"questions\": [\"q\"]} and more'' = Some ''''
   \<and> extractPRDescription ''Adds a parser.'' = Some ''Adds a parser.''
   \<and> extractPRDescription ''see {\"questions\": [\"{\"]}'' = Some ''see {\"questions\": [\"{\"]}''"
proof -
  let ?r = "''Intro {\"questions\": [\"q\"]} tail ''"
  let ?w = "always (reply ?r)"
  let ?c = "exampleConfig ''sk-test'' True"
  let ?qs = "[\<lparr>Question = ''q'', Answer = ''''\<rparr>]"
  have k: "APIKey ?c \<noteq> ''''" "EnableQuestions ?c" by (simp_all add: exampleConfig_def)
  have c0: "contentOf (?w 0) = Some ?r" by code_simp
  have e: "extractQuestions decodeQuestions ?r = Some (?qs, True)" by code_simp
  have u: "\<not> list_ex (\<lambda>q. Answer q \<noteq> '''') (fst (askUserQuestions id ?qs ''\<newline>''))" by code_simp
  have n: "\<not> (TrimSpace ?r = '''' \<or> HasPrefix (TrimSpace ?r) questionsKey)" by code_simp
  have f: "firstAt ?r 6" by code_simp
  have z: "returnsToZero ?r 6 25" by code_simp
  have j: "joined (TrimSpace (take 6 ?r)) (TrimSpace (drop (Suc 25) ?r)) = ''Intro\<newline>\<newline>tail''"
    by code_simp
  have t: "TrimSpace ''Intro\<newline>\<newline>tail'' = ''Intro\<newline>\<newline>tail''" by code_simp
  note inst = unanswered_returns_description
    [of ?r ?c ?w decodeQuestions ?qs id "''\<newline>''" "''fix bug''" "''T''"]
  note balanced = inst [THEN conjunct2, THEN conjunct1, THEN mp, OF n,
                        THEN conjunct2, THEN conjunct2, THEN spec, THEN spec, THEN mp,
                        OF conjI, OF f z]
  from balanced j have d: "extractPRDescription ?r = Some ''Intro\<newline>\<newline>tail''"
    by (rule trans [OF _ arg_cong [where f = Some]])
  from k c0 e u
  have h: "APIKey ?c \<noteq> '''' \<and> EnableQuestions ?c \<and> contentOf (?w 0) = Some ?r
        \<and> extractQuestions decodeQuestions ?r = Some (?qs, True)
        \<and> \<not> list_ex (\<lambda>q. Answer q \<noteq> '''') (fst (askUserQuestions id ?qs ''\<newline>''))"
    by (intro conjI)
  from inst [THEN conjunct2, THEN conjunct2, THEN mp, OF h] obtain d' where
    d': "extractPRDescription ?r = Some d'"
    and g: "GeneratePRMessage decodeQuestions id ?w ''\<newline>'' ''fix bug'' ?c ''T''
       = Some \<lparr>returned = Inr (TrimSpace d'),
               requests = [requestOf ?c (firstMessages ?c ''fix bug'' ''T'')],
               unread = snd (askUserQuestions id ?qs ''\<newline>'')\<rparr>"
    by (elim exE conjE)
  from d d' have "d' = ''Intro\<newline>\<newline>tail''" by (simp only: option.inject)
  with t have "TrimSpace d' = ''Intro\<newline>\<newline>tail''" by (simp only:)
  with g have 1: "map_option returned
     (GeneratePRMessage decodeQuestions id ?w ''\<newline>'' ''fix bug'' ?c ''T'')
     = Some (Inr ''Intro\<newline>\<newline>tail'')"
    by (simp only: option.map run.simps)

  let ?ra = "''  {\"questions\": [\"q\"]} and more''"
  have pa: "TrimSpace ?ra = '''' \<or> HasPrefix (TrimSpace ?ra) questionsKey" by code_simp
  note 3 = unanswered_returns_description [of ?ra, THEN conjunct1, THEN mp, OF pa]

  let ?rb = "''Adds a parser.''"
  have nb: "\<not> (TrimSpace ?rb = '''' \<or> HasPrefix (TrimSpace ?rb) questionsKey)" by code_simp
  have "Index ?rb questionsKey = - 1" by code_simp
  then have fb: "\<forall>s. \<not> firstAt ?rb s" by (simp only: firstAt_def Index_none simp_thms)
  note 4 = unanswered_returns_description [of ?rb, THEN conjunct2, THEN conjunct1, THEN mp, OF nb,
                                           THEN conjunct1, THEN mp, OF fb]

  let ?rc = "''see {\"questions\": [\"{\"]}''"
  have nc: "\<not> (TrimSpace ?rc = '''' \<or> HasPrefix (TrimSpace ?rc) questionsKey)" by code_simp
  have fc: "firstAt ?rc 4" by code_simp
  have lc: "4 < length ?rc" "?rc ! 4 = CHR ''{''" by simp_all
  have sc: "scanBraces ?rc (int 4) 0 = Some (- 1)" by code_simp
  note zc = never_returns_of_scan [OF lc sc]
  note 5 = unanswered_returns_description [of ?rc, THEN conjunct2, THEN conjunct1, THEN mp, OF nc,
                                           THEN conjunct2, THEN conjunct1, THEN spec, THEN mp,
                                           OF conjI, OF fc zc]

  from 1 d 3 4 5 show ?thesis by (intro conjI)
qed

theorem returned_is_trimmed_counterexample:
  "extractPRDescription (''see {\"questions\": [\"{\"]}'' @ ''\<newline>'')
     = Some (''see {\"questions\": [\"{\"]}'' @ ''\<newline>'')
   \<and> map_option returned
       (GeneratePRMessage decodeQuestions id
          (always (reply (''see {\"questions\": [\"{\"]}'' @ ''\<newline>'')))
          '''' ''fix bug'' (exampleConfig ''sk-test'' True) ''T'')
     = Some (Inr ''see {\"questions\": [\"{\"]}'')"
  by code_simp

text \<open>
  C5, as the code has it. \<^verbatim>\<open>GenerateCommitMessage\<close> and \<^verbatim>\<open>GeneratePRMessage\<close> report
  failures only through their error result (they always return). With an empty API key
  they return an error and issue no request. When the decoded response of the first call
  carries an error they return an API error with its message; when its choices are empty
  they return the error \<open>no response from API\<close>. Otherwise
  \<^verbatim>\<open>GenerateCommitMessage\<close> returns the content of the first choice, trimmed, and so
  does \<^verbatim>\<open>GeneratePRMessage\<close> unless \<open>EnableQuestions\<close> is true and questions are
  extracted from that content; when it then makes the second call, the same three rules
  apply to the response of that call.
\<close>

theorem failures_are_error_results:
  "(APIKey config = '''' \<longrightarrow>
      GenerateCommitMessage x diff config template = (Inl MissingAPIKey, [])
      \<and> GeneratePRMessage unmarshal mapLower world stdin commits config template
          = Some \<lparr>returned = Inl MissingAPIKey, requests = [], unread = stdin\<rparr>)
   \<and> (APIKey config \<noteq> '''' \<longrightarrow>
        (\<forall>resp. x = Decoded resp \<longrightarrow>
           fst (GenerateCommitMessage x diff config template) =
             (case Error resp of
                Some m \<Rightarrow> Inl (APIError m)
              | None \<Rightarrow> if Choices resp = [] then Inl NoResponse
                        else Inr (TrimSpace (Content (Message (hd (Choices resp)))))))
        \<and> (\<exists>run. GeneratePRMessage unmarshal mapLower world stdin commits config template = Some run
              \<and> (\<forall>resp. world 0 = Decoded resp \<longrightarrow>
                    (\<forall>m. Error resp = Some m \<longrightarrow> returned run = Inl (APIError m))
                    \<and> (Error resp = None \<and> Choices resp = [] \<longrightarrow> returned run = Inl NoResponse)
                    \<and> (Error resp = None \<and> Choices resp \<noteq> []
                         \<and> \<not> (EnableQuestions config
                                \<and> (\<exists>qs. extractQuestions unmarshal
                                            (Content (Message (hd (Choices resp)))) = Some (qs, True)))
                       \<longrightarrow> returned run = Inr (TrimSpace (Content (Message (hd (Choices resp)))))))
              \<and> (wantsFollowUp unmarshal mapLower world stdin config \<longrightarrow>
                    (\<forall>resp. world 1 = Decoded resp \<longrightarrow>
                       returned run =
                         (case Error resp of
                            Some m \<Rightarrow> Inl (APIError m)
                          | None \<Rightarrow> if Choices resp = [] then Inl NoResponse
                                    else Inr (TrimSpace (Content (Message (hd (Choices resp))))))))))
   \<and> errorText (APIError m') = ''API error: '' @ m'
   \<and> errorText NoResponse = ''no response from API''"
proof -
  have commit: "fst (GenerateCommitMessage x diff config template) =
             (case Error resp of
                Some m \<Rightarrow> Inl (APIError m)
              | None \<Rightarrow> if Choices resp = [] then Inl NoResponse
                        else Inr (TrimSpace (Content (Message (hd (Choices resp))))))"
    if "APIKey config \<noteq> ''''" "x = Decoded resp" for resp
    using that by (simp add: GenerateCommitMessage_eq outcomeOf_Decoded split: option.splits)
  have pr: "\<exists>run. GeneratePRMessage unmarshal mapLower world stdin commits config template = Some run
              \<and> (\<forall>resp. world 0 = Decoded resp \<longrightarrow>
                    (\<forall>m. Error resp = Some m \<longrightarrow> returned run = Inl (APIError m))
                    \<and> (Error resp = None \<and> Choices resp = [] \<longrightarrow> returned run = Inl NoResponse)
                    \<and> (Error resp = None \<and> Choices resp \<noteq> []
                         \<and> \<not> (EnableQuestions config
                                \<and> (\<exists>qs. extractQuestions unmarshal
                                            (Content (Message (hd (Choices resp)))) = Some (qs, True)))
                       \<longrightarrow> returned run = Inr (TrimSpace (Content (Message (hd (Choices resp)))))))
              \<and> (wantsFollowUp unmarshal mapLower world stdin config \<longrightarrow>
                    (\<forall>resp. world 1 = Decoded resp \<longrightarrow>
                       returned run =
                         (case Error resp of
                            Some m \<Rightarrow> Inl (APIError m)
                          | None \<Rightarrow> if Choices resp = [] then Inl NoResponse
                                    else Inr (TrimSpace (Content (Message (hd (Choices resp))))))))"
    if key: "APIKey config \<noteq> ''''"
  proof (cases rule: GeneratePRMessage_cases [of config unmarshal mapLower world stdin commits template])
    case no_key
    with key show ?thesis by simp
  next
    case failed
    then show ?thesis by (auto simp: contentOf_Decoded split: if_splits option.splits)
  next
    case (plain response qs ok)
    then show ?thesis by (auto simp: contentOf_Decoded split: if_splits)
  next
    case (unanswered response qs d)
    then show ?thesis by (auto simp: contentOf_Decoded split: if_splits)
  next
    case (answered response qs)
    then show ?thesis
      by (auto simp: contentOf_Decoded outcomeOf_Decoded split: if_splits option.splits)
  qed
  show ?thesis
    using commit pr
    by (simp add: GenerateCommitMessage_eq GeneratePRMessage_no_key)
qed

theorem failures_are_error_results_witness:
  "GenerateCommitMessage (reply ''Adds a parser.'') ''diff --git'' (exampleConfig '''' False) ''T''
     = (Inl MissingAPIKey, [])
   \<and> map_option returned
       (GeneratePRMessage decodeQuestions id (always (reply ''Adds a parser.'')) '''' ''fix bug''
          (exampleConfig '''' False) ''T'')
     = Some (Inl MissingAPIKey)
   \<and> fst (GenerateCommitMessage (Decoded \<lparr>Choices = [], Error = Some ''quota exceeded''\<rparr>)
            ''diff --git'' (exampleConfig ''sk-test'' False) ''T'')
     = Inl (APIError ''quota exceeded'')
   \<and> errorText (APIError ''quota exceeded'') = ''API error: quota exceeded''
   \<and> fst (GenerateCommitMessage (Decoded \<lparr>Choices = [], Error = None\<rparr>)
            ''diff --git'' (exampleConfig ''sk-test'' False) ''T'')
     = Inl NoResponse
   \<and> fst (GenerateCommitMessage (reply '' Adds a parser. '') ''diff --git''
            (exampleConfig ''sk-test'' False) ''T'')
     = Inr ''Adds a parser.''
   \<and> map_option returned
       (GeneratePRMessage decodeQuestions id
          (always (Decoded \<lparr>Choices = [], Error = Some ''quota exceeded''\<rparr>)) '''' ''fix bug''
          (exampleConfig ''sk-test'' True) ''T'')
     = Some (Inl (APIError ''quota exceeded''))
   \<and> map_option returned
       (GeneratePRMessage decodeQuestions id (always (Decoded \<lparr>Choices = [], Error = None\<rparr>))
          '''' ''fix bug'' (exampleConfig ''sk-test'' True) ''T'')
     = Some (Inl NoResponse)
   \<and> map_option returned
       (GeneratePRMessage decodeQuestions id (always (reply '' Adds a parser. '')) '''' ''fix bug''
          (exampleConfig ''sk-test'' True) ''T'')
     = Some (Inr ''Adds a parser.'')"
proof -
  let ?ce = "exampleConfig '''' False"
  let ?c = "exampleConfig ''sk-test'' False"
  let ?cq = "exampleConfig ''sk-test'' True"
  let ?ok = "reply '' Adds a parser. ''"
  let ?err = "Decoded \<lparr>Choices = [], Error = Some ''quota exceeded''\<rparr>"
  let ?none = "Decoded \<lparr>Choices = [], Error = None\<rparr>"
  have k0: "APIKey ?ce = ''''" by (simp add: exampleConfig_def)
  have k: "APIKey ?c \<noteq> ''''" "APIKey ?cq \<noteq> ''''" by (simp_all add: exampleConfig_def)

  from failures_are_error_results
         [of ?ce "reply ''Adds a parser.''" "''diff --git''" "''T''" decodeQuestions id
             "always (reply ''Adds a parser.'')" "''''" "''fix bug''" "''''"] k0
  have 1: "GenerateCommitMessage (reply ''Adds a parser.'') ''diff --git'' ?ce ''T''
             = (Inl MissingAPIKey, [])"
    and 2: "GeneratePRMessage decodeQuestions id (always (reply ''Adds a parser.'')) '''' ''fix bug''
              ?ce ''T''
             = Some \<lparr>returned = Inl MissingAPIKey, requests = [], unread = ''''\<rparr>"
    by blast+

  from failures_are_error_results
         [of ?c ?err "''diff --git''" "''T''" decodeQuestions id "always ?err" "''''" "''fix bug''"
             "''quota exceeded''"] k(1)
  have 3: "fst (GenerateCommitMessage ?err ''diff --git'' ?c ''T'') = Inl (APIError ''quota exceeded'')"
    and 4: "errorText (APIError ''quota exceeded'') = ''API error: '' @ ''quota exceeded''"
    by simp_all

  from failures_are_error_results
         [of ?c ?none "''diff --git''" "''T''" decodeQuestions id "always ?none" "''''" "''fix bug''"
             "''''"] k(1)
  have 5: "fst (GenerateCommitMessage ?none ''diff --git'' ?c ''T'') = Inl NoResponse"
    by simp

  have t: "TrimSpace '' Adds a parser. '' = ''Adds a parser.''" by code_simp
  from failures_are_error_results
         [of ?c ?ok "''diff --git''" "''T''" decodeQuestions id "always ?ok" "''''" "''fix bug''"
             "''''"] k(1)
  have 6: "fst (GenerateCommitMessage ?ok ''diff --git'' ?c ''T'') = Inr ''Adds a parser.''"
    by (simp add: reply_def t)

  from failures_are_error_results
         [of ?cq ?err "''diff --git''" "''T''" decodeQuestions id "always ?err" "''''" "''fix bug''"
             "''''"] k(2)
  obtain run where r: "GeneratePRMessage decodeQuestions id (always ?err) '''' ''fix bug'' ?cq ''T''
                        = Some run"
    and "\<forall>resp. always ?err 0 = Decoded resp \<longrightarrow>
           (\<forall>m. Error resp = Some m \<longrightarrow> returned run = Inl (APIError m))"
    by blast
  then have "returned run = Inl (APIError ''quota exceeded'')" by (simp add: always_def)
  with r have 7: "map_option returned
       (GeneratePRMessage decodeQuestions id (always ?err) '''' ''fix bug'' ?cq ''T'')
     = Some (Inl (APIError ''quota exceeded''))"
    by simp

  from failures_are_error_results
         [of ?cq ?none "''diff --git''" "''T''" decodeQuestions id "always ?none" "''''" "''fix bug''"
             "''''"] k(2)
  obtain run where r: "GeneratePRMessage decodeQuestions id (always ?none) '''' ''fix bug'' ?cq ''T''
                        = Some run"
    and "\<forall>resp. always ?none 0 = Decoded resp \<longrightarrow>
           (Error resp = None \<and> Choices resp = [] \<longrightarrow> returned run = Inl NoResponse)"
    by blast
  then have "returned run = Inl NoResponse" by (simp add: always_def)
  with r have 8: "map_option returned
       (GeneratePRMessage decodeQuestions id (always ?none) '''' ''fix bug'' ?cq ''T'')
     = Some (Inl NoResponse)"
    by simp

  have q: "EnableQuestions ?cq" by (simp add: exampleConfig_def)
  have nq: "extractQuestions decodeQuestions '' Adds a parser. '' = Some ([], False)" by code_simp
  from failures_are_error_results
         [of ?cq ?ok "''diff --git''" "''T''" decodeQuestions id "always ?ok" "''''" "''fix bug''"
             "''''"] k(2)
  obtain run where r: "GeneratePRMessage decodeQuestions id (always ?ok) '''' ''fix bug'' ?cq ''T''
                        = Some run"
    and "\<forall>resp. always ?ok 0 = Decoded resp \<longrightarrow>
           (Error resp = None \<and> Choices resp \<noteq> []
              \<and> \<not> (EnableQuestions ?cq
                     \<and> (\<exists>qs. extractQuestions decodeQuestions
                                 (Content (Message (hd (Choices resp)))) = Some (qs, True)))
            \<longrightarrow> returned run = Inr (TrimSpace (Content (Message (hd (Choices resp))))))"
    by blast
  then have "returned run = Inr ''Adds a parser.''" by (simp add: always_def reply_def nq t)
  with r have 9: "map_option returned
       (GeneratePRMessage decodeQuestions id (always ?ok) '''' ''fix bug'' ?cq ''T'')
     = Some (Inr ''Adds a parser.'')"
    by simp

  from 1 2 3 4 5 6 7 8 9 show ?thesis by simp
qed

theorem first_choice_not_returned_counterexample:
  "map_option returned
     (GeneratePRMessage decodeQuestions id (always (reply ''Intro {\"questions\": [\"q\"]}''))
        '''' ''fix bug'' (exampleConfig ''sk-test'' True) ''T'')
     = Some (Inr ''Intro'')
   \<and> TrimSpace ''Intro {\"questions\": [\"q\"]}'' = ''Intro {\"questions\": [\"q\"]}''"
  by code_simp

text \<open>
  C6, as the code has it. \<^verbatim>\<open>extractQuestions\<close> and \<^verbatim>\<open>extractPRDescription\<close> are total
  on every string: no index and no slice, the fallback slice included, leaves the bounds
  of the string. It returns nil and false when no \<open>}\<close> follows the start at all, for a
  decoder that rejects the empty input. When the scan finds no matching brace but a
  \<open>}\<close> follows the start, the code does not give up: it falls back to the first \<open>}\<close>
  after the start and decodes the bytes from the start up to and including it. If they
  decode to a non-empty list it reports the first three questions and true (the
  counterexample below); if they decode to an empty list or do not decode, it returns
  nil and false.
\<close>

theorem extraction_total:
  "extractQuestions unmarshal response \<noteq> None
   \<and> extractPRDescription response \<noteq> None
   \<and> (unmarshal [] = None \<and> firstAt response s
        \<and> (\<forall>e \<in> {s..<length response}. response ! e \<noteq> CHR ''}'')
      \<longrightarrow> extractQuestions unmarshal response = Some ([], False))
   \<and> (firstAt response s \<and> (\<forall>e'. \<not> returnsToZero response s e') \<and> firstClose response s e
      \<longrightarrow> (\<forall>l. unmarshal (take (Suc e - s) (drop s response)) = Some l \<longrightarrow>
               extractQuestions unmarshal response
                 = Some (if l = [] then ([], False)
                         else (map (\<lambda>q. \<lparr>Question = q, Answer = ''''\<rparr>) (take 3 l), True)))
          \<and> (unmarshal (take (Suc e - s) (drop s response)) = None \<longrightarrow>
               extractQuestions unmarshal response = Some ([], False)))"
proof (intro conjI impI allI)
  show "extractQuestions unmarshal response \<noteq> None" by (rule extractQuestions_total)
next
  show "extractPRDescription response \<noteq> None" by (rule extractPRDescription_total)
next
  assume h: "unmarshal [] = None \<and> firstAt response s
        \<and> (\<forall>e \<in> {s..<length response}. response ! e \<noteq> CHR ''}'')"
  from h have u: "unmarshal [] = None" by (rule conjunct1)
  from h have f: "firstAt response s" by (rule conjunct2 [THEN conjunct1])
  from h have c: "\<forall>e \<in> {s..<length response}. response ! e \<noteq> CHR ''}''"
    by (rule conjunct2 [THEN conjunct2])
  from u f c show "extractQuestions unmarshal response = Some ([], False)"
    by (rule extractQuestions_no_close)
next
  fix l
  assume h: "firstAt response s \<and> (\<forall>e'. \<not> returnsToZero response s e') \<and> firstClose response s e"
    and d: "unmarshal (take (Suc e - s) (drop s response)) = Some l"
  from h have "questionsJSON response = Some (Some (take (Suc e - s) (drop s response)))"
    using questionsJSON_fallback [of response s e] by blast
  from extractQuestions_of_json [where unmarshal = unmarshal, OF this d]
  show "extractQuestions unmarshal response
          = Some (if l = [] then ([], False)
                  else (map (\<lambda>q. \<lparr>Question = q, Answer = ''''\<rparr>) (take 3 l), True))" .
next
  assume h: "firstAt response s \<and> (\<forall>e'. \<not> returnsToZero response s e') \<and> firstClose response s e"
    and d: "unmarshal (take (Suc e - s) (drop s response)) = None"
  from h have "questionsJSON response = Some (Some (take (Suc e - s) (drop s response)))"
    using questionsJSON_fallback [of response s e] by blast
  from extractQuestions_of_json_rejected [where unmarshal = unmarshal, OF this d]
  show "extractQuestions unmarshal response = Some ([], False)" .
qed

theorem extraction_total_witness:
  "decodeQuestions [] = None
   \<and> firstAt ''note {\"questions\": [\"a\"'' 5
   \<and> Index (drop 5 ''note {\"questions\": [\"a\"'') ''}'' = - 1
   \<and> extractQuestions decodeQuestions ''note {\"questions\": [\"a\"'' = Some ([], False)
   \<and> scanBraces ''ask {\"questions\": [\"{\"]} end'' 4 0 = Some (- 1)
   \<and> firstClose ''ask {\"questions\": [\"{\"]} end'' 4 23
   \<and> extractQuestions decodeQuestions ''ask {\"questions\": [\"{\"]} end''
       = Some ([\<lparr>Question = ''{'', Answer = ''''\<rparr>], True)
   \<and> scanBraces ''go {\"questions\": [{}'' 3 0 = Some (- 1)
   \<and> firstClose ''go {\"questions\": [{}'' 3 19
   \<and> extractQuestions decodeQuestions ''go {\"questions\": [{}'' = Some ([], False)"
proof -
  let ?r = "''note {\"questions\": [\"a\"''"
  have d: "decodeQuestions [] = None" by code_simp
  have f: "firstAt ?r 5" by code_simp
  have c: "\<forall>e \<in> {5..<length ?r}. ?r ! e \<noteq> CHR ''}''" by code_simp
  from d f c have h: "decodeQuestions [] = None \<and> firstAt ?r 5
      \<and> (\<forall>e \<in> {5..<length ?r}. ?r ! e \<noteq> CHR ''}'')"
    by (intro conjI)
  note 1 = extraction_total [of decodeQuestions ?r 5, THEN conjunct2, THEN conjunct2,
                             THEN conjunct1, THEN mp, OF h]
  have 2: "Index (drop 5 ?r) ''}'' = - 1" by code_simp

  let ?ra = "''ask {\"questions\": [\"{\"]} end''"
  have fa: "firstAt ?ra 4" by code_simp
  have la: "4 < length ?ra" "?ra ! 4 = CHR ''{''" by simp_all
  have sa: "scanBraces ?ra (int 4) 0 = Some (- 1)" by code_simp
  have ca: "firstClose ?ra 4 23" by code_simp
  have da: "decodeQuestions (take (Suc 23 - 4) (drop 4 ?ra)) = Some [''{'']" by code_simp
  from fa never_returns_of_scan [OF la sa] ca
  have ha: "firstAt ?ra 4 \<and> (\<forall>e'. \<not> returnsToZero ?ra 4 e') \<and> firstClose ?ra 4 23"
    by (intro conjI)
  from extraction_total [of decodeQuestions ?ra 4 23, THEN conjunct2, THEN conjunct2,
                         THEN conjunct2, THEN mp, OF ha, THEN conjunct1, THEN spec, THEN mp, OF da]
  have 3: "extractQuestions decodeQuestions ?ra = Some ([\<lparr>Question = ''{'', Answer = ''''\<rparr>], True)"
    by simp

  let ?rb = "''go {\"questions\": [{}''"
  have fb: "firstAt ?rb 3" by code_simp
  have lb: "3 < length ?rb" "?rb ! 3 = CHR ''{''" by simp_all
  have sb: "scanBraces ?rb (int 3) 0 = Some (- 1)" by code_simp
  have cb: "firstClose ?rb 3 19" by code_simp
  have db: "decodeQuestions (take (Suc 19 - 3) (drop 3 ?rb)) = None" by code_simp
  from fb never_returns_of_scan [OF lb sb] cb
  have hb: "firstAt ?rb 3 \<and> (\<forall>e'. \<not> returnsToZero ?rb 3 e') \<and> firstClose ?rb 3 19"
    by (intro conjI)
  note 4 = extraction_total [of decodeQuestions ?rb 3 19, THEN conjunct2, THEN conjunct2,
                             THEN conjunct2, THEN mp, OF hb, THEN conjunct2, THEN mp, OF db]

  from sa have sa': "scanBraces ?ra 4 0 = Some (- 1)" by simp
  from sb have sb': "scanBraces ?rb 3 0 = Some (- 1)" by simp
  from d f 2 1 sa' ca 3 sb' cb 4 show ?thesis by (intro conjI)
qed

theorem no_matching_brace_counterexample:
  "scanBraces ''see {\"questions\": [\"why {x?\"]}''
     (Index ''see {\"questions\": [\"why {x?\"]}'' questionsKey) 0 = Some (- 1)
   \<and> extractQuestions decodeQuestions ''see {\"questions\": [\"why {x?\"]}''
       = Some ([\<lparr>Question = ''why {x?'', Answer = ''''\<rparr>], True)"
  by code_simp

text \<open>
  C7. With \<open>EnableQuestions\<close> false the two variants of \<^verbatim>\<open>GeneratePRMessage\<close> in the file
  agree: given the same exchange they return the same value and issue the same number of
  requests, and no standard input is read. With a non-empty key and a decoded response
  that number is one and the value is the API error, the error \<open>no response from API\<close>,
  or the first choice's content trimmed; with an empty key both return the missing-key
  error and issue no request.
\<close>

theorem variants_agree_without_questions:
  assumes "\<not> EnableQuestions config"
  shows "\<exists>run. GeneratePRMessage unmarshal mapLower world stdin commits config template = Some run
           \<and> returned run = fst (GeneratePRMessage_v0 (world 0) commits config template)
           \<and> length (requests run)
               = length (snd (GeneratePRMessage_v0 (world 0) commits config template))
           \<and> unread run = stdin
           \<and> (\<forall>resp. APIKey config \<noteq> '''' \<and> world 0 = Decoded resp \<longrightarrow>
                 length (requests run) = 1
                 \<and> returned run =
                     (case Error resp of
                        Some m \<Rightarrow> Inl (APIError m)
                      | None \<Rightarrow> if Choices resp = [] then Inl NoResponse
                                else Inr (TrimSpace (Content (Message (hd (Choices resp)))))))
           \<and> (APIKey config = '''' \<longrightarrow> returned run = Inl MissingAPIKey \<and> requests run = [])"
proof (cases rule: GeneratePRMessage_cases [of config unmarshal mapLower world stdin commits template])
  case no_key
  then show ?thesis by (simp add: GeneratePRMessage_v0_eq)
next
  case failed
  then show ?thesis
    by (auto simp: GeneratePRMessage_v0_eq outcomeOf_failure contentOf_Decoded built_Decoded
             split: if_splits option.splits)
next
  case (plain response qs ok)
  then show ?thesis
    using contentOf_built [of "world 0" response]
    by (auto simp: GeneratePRMessage_v0_eq outcomeOf_content contentOf_Decoded
             split: if_splits option.splits)
next
  case (unanswered response qs d)
  with assms show ?thesis by simp
next
  case (answered response qs)
  with assms show ?thesis by simp
qed

theorem variants_agree_without_questions_witness:
  "\<not> EnableQuestions (exampleConfig ''sk-test'' False)
   \<and> map_option returned
       (GeneratePRMessage decodeQuestions id (always (reply '' Adds a parser. '')) ''''
          ''fix bug'' (exampleConfig ''sk-test'' False) ''T'')
     = Some (Inr ''Adds a parser.'')
   \<and> fst (GeneratePRMessage_v0 (reply '' Adds a parser. '') ''fix bug''
            (exampleConfig ''sk-test'' False) ''T'') = Inr ''Adds a parser.''
   \<and> map_option (length \<circ> requests)
       (GeneratePRMessage decodeQuestions id (always (reply '' Adds a parser. '')) ''''
          ''fix bug'' (exampleConfig ''sk-test'' False) ''T'')
     = Some 1
   \<and> map_option returned
       (GeneratePRMessage decodeQuestions id (always (reply '' Adds a parser. '')) ''''
          ''fix bug'' (exampleConfig '''' False) ''T'')
     = Some (Inl MissingAPIKey)"
proof -
  let ?c = "exampleConfig ''sk-test'' False"
  let ?ce = "exampleConfig '''' False"
  let ?w = "always (reply '' Adds a parser. '')"
  have q: "\<not> EnableQuestions ?c" "\<not> EnableQuestions ?ce" by (simp_all add: exampleConfig_def)
  have k: "APIKey ?c \<noteq> ''''" "APIKey ?ce = ''''" by (simp_all add: exampleConfig_def)
  have v: "fst (GeneratePRMessage_v0 (reply '' Adds a parser. '') ''fix bug'' ?c ''T'')
             = Inr ''Adds a parser.''"
    by code_simp
  have w0: "?w 0 = reply '' Adds a parser. ''" by (simp add: always_def)
  from variants_agree_without_questions [OF q(1), of decodeQuestions id ?w "''''" "''fix bug''" "''T''"]
  obtain run where r: "GeneratePRMessage decodeQuestions id ?w '''' ''fix bug'' ?c ''T'' = Some run"
    and a: "returned run = fst (GeneratePRMessage_v0 (?w 0) ''fix bug'' ?c ''T'')"
    and b: "\<forall>resp. APIKey ?c \<noteq> '''' \<and> ?w 0 = Decoded resp \<longrightarrow> length (requests run) = 1"
    by blast
  from a v w0 have 1: "returned run = Inr ''Adds a parser.''" by simp
  from b k(1) w0 have 2: "length (requests run) = 1" by (simp add: reply_def)
  from variants_agree_without_questions [OF q(2), of decodeQuestions id ?w "''''" "''fix bug''" "''T''"]
  obtain run0 where r0: "GeneratePRMessage decodeQuestions id ?w '''' ''fix bug'' ?ce ''T'' = Some run0"
    and "APIKey ?ce = '''' \<longrightarrow> returned run0 = Inl MissingAPIKey \<and> requests run0 = []"
    by blast
  with k(2) have 3: "returned run0 = Inl MissingAPIKey" by blast
  from q(1) r 1 2 v r0 3 show ?thesis by simp
qed

text \<open>
  C8. \<^verbatim>\<open>extractQuestions\<close> returns at most three questions. When the embedded object
  (the text from the first \<open>{"questions":\<close> to the end the code finds for it) decodes to
  more than three entries, exactly the first three are returned, in their order, each with
  an empty \<open>Answer\<close>, and the flag is true.
\<close>

theorem extractQuestions_at_most_three:
  "\<exists>qs ok. extractQuestions unmarshal response = Some (qs, ok) \<and> length qs \<le> 3
     \<and> (\<forall>s e l. firstAt response s \<and> endsAt response s e
            \<and> unmarshal (take (Suc e - s) (drop s response)) = Some l \<and> 3 < length l
          \<longrightarrow> qs = map (\<lambda>q. \<lparr>Question = q, Answer = ''''\<rparr>) (take 3 l) \<and> ok)"
proof -
  obtain qs ok where ex: "extractQuestions unmarshal response = Some (qs, ok)"
    using extractQuestions_total [of unmarshal response] by (cases "extractQuestions unmarshal response") auto
  from extractQuestions_flag [OF ex] have le: "length qs \<le> 3" by simp
  have "qs = map (\<lambda>q. \<lparr>Question = q, Answer = ''''\<rparr>) (take 3 l) \<and> ok"
    if h: "firstAt response s \<and> endsAt response s e
           \<and> unmarshal (take (Suc e - s) (drop s response)) = Some l \<and> 3 < length l" for s e l
  proof -
    from h have j: "questionsJSON response = Some (Some (take (Suc e - s) (drop s response)))"
      by (simp add: questionsJSON_endsAt)
    from h have ne: "l \<noteq> []" by auto
    from extractQuestions_of_json [of response "take (Suc e - s) (drop s response)" unmarshal l] j h ne ex
    show ?thesis by simp
  qed
  with ex le show ?thesis by blast
qed

theorem extractQuestions_at_most_three_witness:
  "extractQuestions decodeQuestions ''{\"questions\": [\"a\", \"b\", \"c\", \"d\"]}''
   = Some ([\<lparr>Question = ''a'', Answer = ''''\<rparr>, \<lparr>Question = ''b'', Answer = ''''\<rparr>,
            \<lparr>Question = ''c'', Answer = ''''\<rparr>], True)"
proof -
  let ?r = "''{\"questions\": [\"a\", \"b\", \"c\", \"d\"]}''"
  have f: "firstAt ?r 0" by code_simp
  have e: "endsAt ?r 0 34" by code_simp
  have d: "decodeQuestions (take (Suc 34 - 0) (drop 0 ?r)) = Some [''a'', ''b'', ''c'', ''d'']"
    by code_simp
  have l: "3 < length [''a'', ''b'', ''c'', ''d'']" by simp
  from extractQuestions_at_most_three [of decodeQuestions ?r] obtain qs ok where
    a: "extractQuestions decodeQuestions ?r = Some (qs, ok)"
    and b: "\<forall>s e l. firstAt ?r s \<and> endsAt ?r s e
              \<and> decodeQuestions (take (Suc e - s) (drop s ?r)) = Some l \<and> 3 < length l
            \<longrightarrow> qs = map (\<lambda>q. \<lparr>Question = q, Answer = ''''\<rparr>) (take 3 l) \<and> ok"
    by blast
  from b f e d l have "qs = map (\<lambda>q. \<lparr>Question = q, Answer = ''''\<rparr>) (take 3 [''a'', ''b'', ''c'', ''d'']) \<and> ok"
    by blast
  with a show ?thesis by simp
qed

text \<open>
  C9. \<^verbatim>\<open>askUserQuestions\<close> preserves the questions themselves: the returned slice has
  the length of the input and, at every index, the same \<open>Question\<close> field; only the
  \<open>Answer\<close> fields change. This holds for every standard input and every case mapping.
\<close>

theorem askUserQuestions_preserves_questions:
  "length (fst (askUserQuestions mapLower questions stdin)) = length questions
   \<and> map Question (fst (askUserQuestions mapLower questions stdin)) = map Question questions"
proof (induction questions arbitrary: stdin)
  case Nil
  show ?case by simp
next
  case (Cons q questions)
  obtain answer rest where rd: "ReadString CHR ''\<newline>'' stdin = (answer, rest)"
    by (cases "ReadString CHR ''\<newline>'' stdin")
  obtain questions' rest' where rec: "askUserQuestions mapLower questions rest = (questions', rest')"
    by (cases "askUserQuestions mapLower questions rest")
  from Cons.IH [of rest] rec
  have ih: "length questions' = length questions" "map Question questions' = map Question questions"
    by simp_all
  show ?case
    by (simp add: rd rec ih Let_def comp_def)
qed

theorem askUserQuestions_preserves_questions_witness:
  "map Question
     (fst (askUserQuestions id
             [\<lparr>Question = ''why?'', Answer = ''''\<rparr>, \<lparr>Question = ''how?'', Answer = ''old''\<rparr>]
             ''because\<newline>''))
   = [''why?'', ''how?'']"
  using askUserQuestions_preserves_questions
          [of id "[\<lparr>Question = ''why?'', Answer = ''''\<rparr>, \<lparr>Question = ''how?'', Answer = ''old''\<rparr>]"
              "''because\<newline>''"]
  by simp

text \<open>
  C10. In \<^verbatim>\<open>askUserQuestions\<close>, when the trimmed answer to question \<open>i\<close> is the first
  one that lowercases to \<open>skip all\<close> or \<open>skipall\<close>, the questions up to \<open>i\<close> carry
  their trimmed answers, question \<open>i\<close> keeps the text as typed (not empty), every later
  question gets the empty answer, nothing more is read from standard input, and the
  any-answered check of \<^verbatim>\<open>GeneratePRMessage\<close> succeeds.
\<close>

theorem skip_all_stops_asking:
  assumes "i < length questions"
    and "readLines (Suc i) stdin = (lines, rest)"
    and "\<forall>k \<in> {0..<i}. \<not> isSkipAll mapLower (TrimSpace (lines ! k))"
    and "isSkipAll mapLower (TrimSpace (lines ! i))"
  shows "askUserQuestions mapLower questions stdin =
           (map2 (\<lambda>q l. q\<lparr>Answer := TrimSpace l\<rparr>) (take (Suc i) questions) lines
              @ map (\<lambda>q. q\<lparr>Answer := ''''\<rparr>) (drop (Suc i) questions),
            rest)
         \<and> Answer (fst (askUserQuestions mapLower questions stdin) ! i) = TrimSpace (lines ! i)
         \<and> TrimSpace (lines ! i) \<noteq> ''''
         \<and> (\<forall>j \<in> {Suc i..<length questions}.
               Answer (fst (askUserQuestions mapLower questions stdin) ! j) = '''')
         \<and> list_ex (\<lambda>q. Answer q \<noteq> '''') (fst (askUserQuestions mapLower questions stdin))"
proof -
  let ?asked = "map2 (\<lambda>q l. q\<lparr>Answer := TrimSpace l\<rparr>) (take (Suc i) questions) lines"
  let ?cleared = "map (\<lambda>q. q\<lparr>Answer := ''''\<rparr>) (drop (Suc i) questions)"
  have eq: "askUserQuestions mapLower questions stdin = (?asked @ ?cleared, rest)"
    by (rule askUserQuestions_skip_all [OF assms])
  have ll: "length lines = Suc i" by (rule readLines_length [OF assms(2)])
  have lf: "length ?asked = Suc i" using assms(1) ll by simp
  have at_i: "(?asked @ ?cleared) ! i = (questions ! i)\<lparr>Answer := TrimSpace (lines ! i)\<rparr>"
    using lf ll assms(1) by (simp add: nth_append)
  have ne: "TrimSpace (lines ! i) \<noteq> ''''" by (rule isSkipAll_nonempty [OF assms(4)])
  have later: "Answer ((?asked @ ?cleared) ! j) = ''''" if "j \<in> {Suc i..<length questions}" for j
  proof -
    from that have j: "Suc i \<le> j" "j < length questions" by simp_all
    then have "(?asked @ ?cleared) ! j = ?cleared ! (j - Suc i)" using lf by (simp add: nth_append)
    also have "\<dots> = (questions ! j)\<lparr>Answer := ''''\<rparr>" using j by simp
    finally show ?thesis by simp
  qed
  have "i < length (?asked @ ?cleared)" using lf by simp
  then have "(?asked @ ?cleared) ! i \<in> set (?asked @ ?cleared)" by (rule nth_mem)
  with at_i ne have ex: "list_ex (\<lambda>q. Answer q \<noteq> '''') (?asked @ ?cleared)"
    unfolding list_ex_iff by (intro bexI [of _ "(?asked @ ?cleared) ! i"]) simp_all
  show ?thesis using eq at_i ne later ex by simp
qed

theorem skip_all_stops_asking_witness:
  "askUserQuestions id
     [\<lparr>Question = ''why?'', Answer = ''''\<rparr>, \<lparr>Question = ''how?'', Answer = ''''\<rparr>,
      \<lparr>Question = ''when?'', Answer = ''''\<rparr>]
     ''first\<newline> Skip All \<newline>ignored\<newline>''
   = ([\<lparr>Question = ''why?'', Answer = ''first''\<rparr>, \<lparr>Question = ''how?'', Answer = ''Skip All''\<rparr>,
       \<lparr>Question = ''when?'', Answer = ''''\<rparr>],
      ''ignored\<newline>'')"
proof -
  let ?qs = "[\<lparr>Question = ''why?'', Answer = ''''\<rparr>, \<lparr>Question = ''how?'', Answer = ''''\<rparr>,
              \<lparr>Question = ''when?'', Answer = ''''\<rparr>]"
  let ?in = "''first\<newline> Skip All \<newline>ignored\<newline>''"
  let ?lines = "[''first\<newline>'', '' Skip All \<newline>'']"
  have 1: "1 < length ?qs" by simp
  have 2: "readLines (Suc 1) ?in = (?lines, ''ignored\<newline>'')" by code_simp
  have 3: "\<forall>k \<in> {0..<1}. \<not> isSkipAll id (TrimSpace (?lines ! k))" by code_simp
  have 4: "isSkipAll id (TrimSpace (?lines ! 1))" by code_simp
  have t1: "TrimSpace ''first\<newline>'' = ''first''" by code_simp
  have t2: "TrimSpace '' Skip All \<newline>'' = ''Skip All''" by code_simp
  from skip_all_stops_asking [OF 1 2 3 4]
  have "askUserQuestions id ?qs ?in =
          (map2 (\<lambda>q l. q\<lparr>Answer := TrimSpace l\<rparr>) (take (Suc 1) ?qs) ?lines
             @ map (\<lambda>q. q\<lparr>Answer := ''''\<rparr>) (drop (Suc 1) ?qs),
           ''ignored\<newline>'')"
    by (rule conjunct1)
  then show ?thesis by (simp add: t1 t2)
qed

end
